theory Spec2Isabelle
  imports Main
begin

section \<open>JavaScript strings and character classes\<close>

text \<open>
  A JavaScript string is modelled as a \<^typ>\<open>string\<close>: the list of its code units, each below 256.
  The character classes are those of the regular expressions in the sources: \<open>\s\<close> (white space
  and line terminators), \<open>\w\<close>, \<open>[A-Z]\<close>, \<open>[a-zA-Z0-9]\<close> and the dot, which excludes the line
  terminators. \<open>toUpperCase\<close> and \<open>toLowerCase\<close> are JavaScript's on ASCII code units; the sources
  apply them to one code unit at a time.
\<close>

definition isSpace :: "char \<Rightarrow> bool" where
  "isSpace c = (of_char c \<in> {9, 10, 11, 12, 13, 32, 160 :: nat})"

definition isUpper :: "char \<Rightarrow> bool" where
  "isUpper c = (65 \<le> (of_char c :: nat) \<and> (of_char c :: nat) \<le> 90)"

definition isLower :: "char \<Rightarrow> bool" where
  "isLower c = (97 \<le> (of_char c :: nat) \<and> (of_char c :: nat) \<le> 122)"

definition isDigit :: "char \<Rightarrow> bool" where
  "isDigit c = (48 \<le> (of_char c :: nat) \<and> (of_char c :: nat) \<le> 57)"

definition isAlnum :: "char \<Rightarrow> bool" where
  "isAlnum c = (isLower c \<or> isUpper c \<or> isDigit c)"

definition isWordChar :: "char \<Rightarrow> bool" where
  "isWordChar c = (isAlnum c \<or> c = CHR ''_'')"

definition isDot :: "char \<Rightarrow> bool" where
  "isDot c = (of_char c \<notin> {10, 13 :: nat})"

definition isAny :: "char \<Rightarrow> bool" where
  "isAny c = True"

definition toUpperCase :: "char \<Rightarrow> char" where
  "toUpperCase c = (if isLower c then char_of (of_char c - 32 :: nat) else c)"

definition toLowerCase :: "char \<Rightarrow> char" where
  "toLowerCase c = (if isUpper c then char_of (of_char c + 32 :: nat) else c)"

fun strip_prefix :: "string \<Rightarrow> string \<Rightarrow> string option" where
  "strip_prefix [] s = Some s"
| "strip_prefix (p # ps) [] = None"
| "strip_prefix (p # ps) (c # cs) = (if p = c then strip_prefix ps cs else None)"

text \<open>\<open>String.prototype.includes\<close> and \<open>endsWith\<close>.\<close>

fun js_includes :: "string \<Rightarrow> string \<Rightarrow> bool" where
  "js_includes [] needle = (needle = [])"
| "js_includes (c # cs) needle = (strip_prefix needle (c # cs) \<noteq> None \<or> js_includes cs needle)"


text \<open>\<open>String.prototype.trim\<close> removes white space and line terminators at both ends.\<close>

definition trim :: "string \<Rightarrow> string" where
  "trim s = rev (dropWhile isSpace (rev (dropWhile isSpace s)))"

section \<open>The regular expressions of the sources\<close>

text \<open>
  Every regular expression of the sources that is modelled here is a sequence of items: a literal
  text, an alternation of literal texts, one character of a class, or a class under a greedy star
  or plus, a lazy star or a greedy question mark, possibly closed by the end anchor \<open>$\<close>.
  \<open>rx_at\<close> is the backtracking matcher of JavaScript on such a sequence, anchored at the
  beginning of its input: a greedy item tries the longer match first, a lazy one the shorter, an
  alternation its texts in order. It returns the text consumed by each item (so the text of a
  capture group is the entry of its item) and the rest of the input.
\<close>

datatype rx =
    Chars string
  | AnyOf "string list"
  | One "char \<Rightarrow> bool"
  | Many "char \<Rightarrow> bool"
  | Many1 "char \<Rightarrow> bool"
  | Few "char \<Rightarrow> bool"
  | Opt "char \<Rightarrow> bool"
  | End

fun cons_hd :: "char \<Rightarrow> string list \<Rightarrow> string list" where
  "cons_hd c [] = [[c]]"
| "cons_hd c (m # ps) = (c # m) # ps"

fun alternatives :: "rx list \<Rightarrow> nat" where
  "alternatives (AnyOf ls # rs) = length ls"
| "alternatives rs = 0"

function rx_at :: "rx list \<Rightarrow> string \<Rightarrow> (string list \<times> string) option" where
  "rx_at [] s = Some ([], s)"
| "rx_at (Chars l # rs) s =
     (case strip_prefix l s of
        None \<Rightarrow> None
      | Some t \<Rightarrow> (case rx_at rs t of None \<Rightarrow> None | Some (ps, u) \<Rightarrow> Some (l # ps, u)))"
| "rx_at (AnyOf [] # rs) s = None"
| "rx_at (AnyOf (l # ls) # rs) s =
     (case strip_prefix l s of
        None \<Rightarrow> rx_at (AnyOf ls # rs) s
      | Some t \<Rightarrow>
          (case rx_at rs t of
             None \<Rightarrow> rx_at (AnyOf ls # rs) s
           | Some (ps, u) \<Rightarrow> Some (l # ps, u)))"
| "rx_at (One p # rs) [] = None"
| "rx_at (One p # rs) (c # cs) =
     (if p c
      then (case rx_at rs cs of None \<Rightarrow> None | Some (ps, u) \<Rightarrow> Some ([c] # ps, u))
      else None)"
| "rx_at (Many p # rs) [] =
     (case rx_at rs [] of None \<Rightarrow> None | Some (ps, u) \<Rightarrow> Some ([] # ps, u))"
| "rx_at (Many p # rs) (c # cs) =
     (case (if p c then rx_at (Many p # rs) cs else None) of
        Some (ps, u) \<Rightarrow> Some (cons_hd c ps, u)
      | None \<Rightarrow>
          (case rx_at rs (c # cs) of None \<Rightarrow> None | Some (ps, u) \<Rightarrow> Some ([] # ps, u)))"
| "rx_at (Many1 p # rs) [] = None"
| "rx_at (Many1 p # rs) (c # cs) =
     (if p c
      then (case rx_at (Many p # rs) cs of
              None \<Rightarrow> None
            | Some (ps, u) \<Rightarrow> Some (cons_hd c ps, u))
      else None)"
| "rx_at (Few p # rs) [] =
     (case rx_at rs [] of None \<Rightarrow> None | Some (ps, u) \<Rightarrow> Some ([] # ps, u))"
| "rx_at (Few p # rs) (c # cs) =
     (case rx_at rs (c # cs) of
        Some (ps, u) \<Rightarrow> Some ([] # ps, u)
      | None \<Rightarrow>
          (case (if p c then rx_at (Few p # rs) cs else None) of
             None \<Rightarrow> None
           | Some (ps, u) \<Rightarrow> Some (cons_hd c ps, u)))"
| "rx_at (Opt p # rs) [] =
     (case rx_at rs [] of None \<Rightarrow> None | Some (ps, u) \<Rightarrow> Some ([] # ps, u))"
| "rx_at (Opt p # rs) (c # cs) =
     (case (if p c then rx_at rs cs else None) of
        Some (ps, u) \<Rightarrow> Some ([c] # ps, u)
      | None \<Rightarrow>
          (case rx_at rs (c # cs) of None \<Rightarrow> None | Some (ps, u) \<Rightarrow> Some ([] # ps, u)))"
| "rx_at (End # rs) [] =
     (case rx_at rs [] of None \<Rightarrow> None | Some (ps, u) \<Rightarrow> Some ([] # ps, u))"
| "rx_at (End # rs) (c # cs) = None"
  by pat_completeness auto
termination
  by (relation "measures [\<lambda>(rs, s). length rs, \<lambda>(rs, s). alternatives rs, \<lambda>(rs, s). length s]")
     auto

text \<open>
  An unanchored expression is tried at every position from the left: \<open>rx_search\<close> returns the
  text before the first match, the items of the match and the text after it. \<open>RegExp.test\<close> on a
  fresh expression asks whether there is a match.
\<close>

fun rx_search :: "rx list \<Rightarrow> string \<Rightarrow> (string \<times> string list \<times> string) option" where
  "rx_search rs [] = (case rx_at rs [] of None \<Rightarrow> None | Some (ps, u) \<Rightarrow> Some ([], ps, u))"
| "rx_search rs (c # cs) =
     (case rx_at rs (c # cs) of
        Some (ps, u) \<Rightarrow> Some ([], ps, u)
      | None \<Rightarrow>
          (case rx_search rs cs of
             None \<Rightarrow> None
           | Some (pre, ps, u) \<Rightarrow> Some (c # pre, ps, u)))"

definition rx_test :: "rx list \<Rightarrow> string \<Rightarrow> bool" where
  "rx_test rs s = (rx_search rs s \<noteq> None)"

text \<open>
  \<open>String.prototype.replace\<close> with a replacement text expands the patterns \<open>$$\<close>, \<open>$&\<close>,
  \<open>$`\<close> and \<open>$'\<close> of that text. None of the expressions replaced through a text has a capture
  group, so \<open>$1\<close> \<dots> \<open>$99\<close> and \<open>$<\<close> stand for themselves.
\<close>

fun expand :: "string \<Rightarrow> string \<Rightarrow> string \<Rightarrow> string \<Rightarrow> string" where
  "expand pre m post [] = []"
| "expand pre m post [c] = [c]"
| "expand pre m post (c # d # t) =
     (if c = CHR ''$'' \<and> d = CHR ''$'' then CHR ''$'' # expand pre m post t
      else if c = CHR ''$'' \<and> d = CHR ''&'' then m @ expand pre m post t
      else if c = CHR ''$'' \<and> d = CHR 0x60 then pre @ expand pre m post t
      else if c = CHR ''$'' \<and> d = CHR 0x27 then post @ expand pre m post t
      else c # expand pre m post (d # t))"

text \<open>Replacing the first match of an expression (no \<open>g\<close> flag) by a replacement text.\<close>

definition replace_first :: "rx list \<Rightarrow> string \<Rightarrow> string \<Rightarrow> string" where
  "replace_first rs repl s =
     (case rx_search rs s of
        None \<Rightarrow> s
      | Some (pre, ps, post) \<Rightarrow> pre @ expand pre (concat ps) post repl @ post)"

text \<open>
  Replacing every match (flag \<open>g\<close>): after a match the search goes on behind it, and behind an
  empty match one code unit is copied. The replacement is computed by \<open>f\<close> from the text before
  the match, the items of the match and the text after it.
\<close>

function replace_all_from ::
  "rx list \<Rightarrow> (string \<Rightarrow> string list \<Rightarrow> string \<Rightarrow> string) \<Rightarrow> string \<Rightarrow> string \<Rightarrow> string" where
  "replace_all_from rs f sofar s =
     (case rx_at rs s of
        Some (ps, u) \<Rightarrow>
          (if length u < length s
           then f sofar ps u @ replace_all_from rs f (sofar @ concat ps) u
           else (case s of
                   [] \<Rightarrow> f sofar ps u
                 | c # cs \<Rightarrow> f sofar ps u @ c # replace_all_from rs f (sofar @ [c]) cs))
      | None \<Rightarrow>
          (case s of
             [] \<Rightarrow> []
           | c # cs \<Rightarrow> c # replace_all_from rs f (sofar @ [c]) cs))"
  by pat_completeness auto
termination
  by (relation "measure (\<lambda>(rs, f, sofar, s). length s)") auto

declare replace_all_from.simps [simp del]

definition replace_all :: "rx list \<Rightarrow> string \<Rightarrow> string \<Rightarrow> string" where
  "replace_all rs repl s =
     replace_all_from rs (\<lambda>pre ps post. expand pre (concat ps) post repl) [] s"

text \<open>
  What a match is, without the search: \<open>decomp rs ps u\<close> says that the texts \<open>ps\<close>, followed by
  the rest \<open>u\<close>, are one way to read the input as the items \<open>rs\<close>. The matcher finds a match
  exactly when there is such a reading; which one it returns is decided by its priorities.
\<close>

fun conforms :: "rx \<Rightarrow> string \<Rightarrow> string \<Rightarrow> bool" where
  "conforms (Chars l) p rest = (p = l)"
| "conforms (AnyOf ls) p rest = (p \<in> set ls)"
| "conforms (One P) p rest = (\<exists>c. p = [c] \<and> P c)"
| "conforms (Many P) p rest = (\<forall>c\<in>set p. P c)"
| "conforms (Many1 P) p rest = (p \<noteq> [] \<and> (\<forall>c\<in>set p. P c))"
| "conforms (Few P) p rest = (\<forall>c\<in>set p. P c)"
| "conforms (Opt P) p rest = (p = [] \<or> (\<exists>c. p = [c] \<and> P c))"
| "conforms End p rest = (p = [] \<and> rest = [])"

fun decomp :: "rx list \<Rightarrow> string list \<Rightarrow> string \<Rightarrow> bool" where
  "decomp [] ps u = (ps = [])"
| "decomp (r # rs) [] u = False"
| "decomp (r # rs) (p # ps) u = (conforms r p (concat ps @ u) \<and> decomp rs ps u)"

section \<open>The identifier case converters\<close>

text \<open>
  \<open>camelCase\<close> and \<open>toPascalCase\<close> of \<open>generateCollection.ts\<close> first replace every match of
  \<open>/(?:^\w|[A-Z]|\b\w)/g\<close> through a callback. Each alternative matches exactly one code unit, so
  the replacement visits the code units from the left; \<open>i\<close> is the index of the code unit and
  \<open>prevWord\<close> tells whether the code unit before it is a word character (there is a word boundary
  before a word character exactly when it is not). The callback receives the matched code unit
  and its index.
\<close>

fun replaceWordStarts :: "(char \<Rightarrow> nat \<Rightarrow> string) \<Rightarrow> nat \<Rightarrow> bool \<Rightarrow> string \<Rightarrow> string" where
  "replaceWordStarts f i prevWord [] = []"
| "replaceWordStarts f i prevWord (c # cs) =
     (if (i = 0 \<and> isWordChar c) \<or> isUpper c \<or> (isWordChar c \<and> \<not> prevWord)
      then f c i
      else [c]) @ replaceWordStarts f (Suc i) (isWordChar c) cs"

definition camelCase :: "string \<Rightarrow> string" where
  "camelCase str =
     replace_all [One (\<lambda>c. c = CHR ''-'' \<or> c = CHR ''_'')] []
       (replace_all [Many1 isSpace] []
          (replaceWordStarts (\<lambda>word index. if index = 0 then [toLowerCase word] else [toUpperCase word])
             0 False str))"

definition toPascalCase :: "string \<Rightarrow> string" where
  "toPascalCase str =
     replace_all [One (\<lambda>c. c = CHR ''-'' \<or> c = CHR ''_'')] []
       (replace_all [Many1 isSpace] []
          (replaceWordStarts (\<lambda>letter index. [toUpperCase letter]) 0 False str))"

text \<open>The identifier grammar \<open>/^[A-Z][a-zA-Z0-9]*$/\<close> of the name prompt.\<close>

definition isPascalIdentifier :: "string \<Rightarrow> bool" where
  "isPascalIdentifier s = (rx_at [One isUpper, Many isAlnum, End] s \<noteq> None)"

text \<open>The first code unit lowercased: \<open>s.charAt(0).toLowerCase() + s.slice(1)\<close>.\<close>

fun lowerFirst :: "string \<Rightarrow> string" where
  "lowerFirst [] = []"
| "lowerFirst (c # cs) = toLowerCase c # cs"

text \<open>The code units of a name made of words: letters, digits and the separators that the
  converters remove.\<close>

definition isNameChar :: "char \<Rightarrow> bool" where
  "isNameChar c = (isAlnum c \<or> isSpace c \<or> c = CHR ''-'' \<or> c = CHR ''_'')"

section \<open>Configuration templates and their validators\<close>

text \<open>
  \<open>CONFIG_TEMPLATES\<close> of \<open>packageManager.ts\<close>: each template has a name, its canonical content
  and a validator, which classifies the module format of a content (the default-export marker
  wins over the exports-object marker) and looks for the required content of the template.
\<close>

datatype module_format = ESM | CommonJS

record ConfigValidation =
  isValid :: bool
  format :: "module_format option"
  hasRequiredContent :: bool

record ConfigTemplate =
  name :: string
  content :: string
  validate :: "string \<Rightarrow> ConfigValidation"

definition postcssContent :: string where
  \<open>postcssContent =
     ''export default {\<newline>  plugins: {\<newline>    "@tailwindcss/postcss": {},\<newline>  },\<newline>};''\<close>

definition tailwindContent :: string where
  \<open>tailwindContent =
     ''import { type Config } from "tailwindcss";\<newline>'' @
     ''import { getShadcnContent } from "@payloadcmsdirectory/shadcn-ui";\<newline>'' @
     ''\<newline>'' @
     ''export default {\<newline>'' @
     ''  content: [\<newline>'' @
     ''    ...getShadcnContent(),\<newline>'' @
     ''    "./src/**/*.{js,ts,jsx,tsx}",\<newline>'' @
     ''  ],\<newline>'' @
     ''  theme: {\<newline>'' @
     ''    extend: {},\<newline>'' @
     ''  },\<newline>'' @
     ''  plugins: [],\<newline>'' @
     ''} satisfies Config;''\<close>

definition cssContent :: string where
  \<open>cssContent =
     ''@import "@payloadcmsdirectory/shadcn-ui/globals.css";\<newline>'' @
     ''\<newline>'' @
     ''@tailwind base;\<newline>'' @
     ''@tailwind components;\<newline>'' @
     ''@tailwind utilities;''\<close>

definition postcss :: ConfigTemplate where
  "postcss = \<lparr> name = ''PostCSS'', content = postcssContent,
               validate = (\<lambda>text.
                 let isESM = js_includes text ''export default'';
                     isCommonJS = js_includes text ''module.exports'';
                     hasRequired = js_includes text ''@tailwindcss/postcss''
                 in \<lparr> isValid = (isESM \<or> isCommonJS) \<and> hasRequired,
                      format = (if isESM then Some ESM else if isCommonJS then Some CommonJS else None),
                      hasRequiredContent = hasRequired \<rparr>) \<rparr>"

definition tailwind :: ConfigTemplate where
  "tailwind = \<lparr> name = ''Tailwind'', content = tailwindContent,
                validate = (\<lambda>text.
                  let isESM = js_includes text ''export default'';
                      isCommonJS = js_includes text ''module.exports'';
                      hasRequired = js_includes text ''getShadcnContent()''
                  in \<lparr> isValid = (isESM \<or> isCommonJS) \<and> hasRequired,
                       format = (if isESM then Some ESM else if isCommonJS then Some CommonJS else None),
                       hasRequiredContent = hasRequired \<rparr>) \<rparr>"

definition css :: ConfigTemplate where
  "css = \<lparr> name = ''CSS'', content = cssContent,
           validate = (\<lambda>text.
             let hasRequired = js_includes text ''@payloadcmsdirectory/shadcn-ui/globals.css''
             in \<lparr> isValid = hasRequired, format = None, hasRequiredContent = hasRequired \<rparr>) \<rparr>"

definition CONFIG_TEMPLATES :: "ConfigTemplate list" where
  "CONFIG_TEMPLATES = [postcss, tailwind, css]"

section \<open>The configuration handler\<close>

text \<open>
  The files of the project are a map from paths to contents. \<open>ConfigHandler\<close> keeps the list of
  registered files, each with its template. \<open>validateConfigs\<close> is modelled on a file system
  whose reads succeed: it reports on every registered file in order. \<open>updateConfigs\<close>, which
  writes the canonical content over every file that is missing or not valid, is modelled
  further below, with reads and writes that can fail.
\<close>

type_synonym files = "string \<rightharpoonup> string"

record ConfigFile =
  path :: string
  template :: ConfigTemplate

record ConfigReport =
  reportName :: string
  reportPath :: string
  needsUpdate :: bool
  fileExists :: bool
  validation :: "ConfigValidation option"

definition addConfig :: "string \<Rightarrow> ConfigTemplate \<Rightarrow> ConfigFile list \<Rightarrow> ConfigFile list" where
  "addConfig filePath t configs = configs @ [\<lparr> path = filePath, template = t \<rparr>]"

fun validateConfigs :: "ConfigFile list \<Rightarrow> files \<Rightarrow> ConfigReport list" where
  "validateConfigs [] fs = []"
| "validateConfigs (config # configs) fs =
     (case fs (path config) of
        None \<Rightarrow>
          \<lparr> reportName = name (template config), reportPath = path config,
            needsUpdate = True, fileExists = False, validation = None \<rparr>
      | Some text \<Rightarrow>
          (let v = validate (template config) text
           in \<lparr> reportName = name (template config), reportPath = path config,
                needsUpdate = \<not> isValid v, fileExists = True, validation = Some v \<rparr>))
     # validateConfigs configs fs"

definition createShadcnConfigHandler :: "string \<Rightarrow> string \<Rightarrow> string \<Rightarrow> ConfigFile list" where
  "createShadcnConfigHandler postcssPath tailwindPath cssPath =
     addConfig cssPath css (addConfig tailwindPath tailwind (addConfig postcssPath postcss []))"


section \<open>The config patcher\<close>

text \<open>
  \<open>BasePluginInstaller\<close> is abstract: an installer supplies its package name, the text of its
  entry for the plugins list and, unless it keeps the default, its import name. These three
  texts are the registration. The default import name is the last segment of the package
  name without its hyphens.
\<close>

record PluginRegistration =
  packageName :: string
  pluginName :: string
  pluginConfig :: string

definition getPluginImportName :: "string \<Rightarrow> string" where
  "getPluginImportName pkg =
     filter (\<lambda>c. c \<noteq> CHR ''-'') (rev (takeWhile (\<lambda>c. c \<noteq> CHR ''/'') (rev pkg)))"

text \<open>
  The expressions of \<open>updatePayloadConfig\<close>. The import name and the package name are spliced
  into the source text of two of them; the model reads the spliced names as literal text, which
  is what \<open>new RegExp\<close> does with a name that has no character special to regular expressions.
\<close>

definition isQuote :: "char \<Rightarrow> bool" where
  "isQuote c = (c = CHR 0x27 \<or> c = CHR 0x22)"

definition importRegex :: "string \<Rightarrow> string \<Rightarrow> rx list" where
  "importRegex plugin pkg =
     [Chars ''import'', Many1 isSpace, Few isDot, Chars plugin, Few isDot, Chars ''from'',
      Many1 isSpace, One isQuote, Chars pkg, One isQuote]"

definition pluginsRegex :: "rx list" where
  "pluginsRegex =
     [Chars ''plugins'', Many isSpace, Chars '':'', Many isSpace, Chars ''['', Few isAny, Chars '']'']"

definition pluginRegex :: "string \<Rightarrow> rx list" where
  "pluginRegex plugin =
     [AnyOf [plugin, ''shadcnPlugin''], Many isSpace, Chars ''('', Many isSpace, Chars ''{'',
      Few isAny, Chars ''}'', Many isSpace, Chars '')'']"

definition buildConfigRegex :: "rx list" where
  "buildConfigRegex =
     [Chars ''buildConfig'', Many isSpace, Chars ''('', Many isSpace, Chars ''{'', Few isAny,
      Chars ''}'', Many isSpace, Chars '')'']"

definition doubleComma :: "rx list" where
  "doubleComma = [Chars '','', Many isSpace, Chars '','']"

definition commaAtEnd :: "rx list" where
  "commaAtEnd = [Chars '','', Many isSpace, End]"

definition commaAfterOpen :: "rx list" where
  "commaAfterOpen = [Chars ''['', Many isSpace, Chars '','']"

definition commaBeforeClose :: "rx list" where
  "commaBeforeClose = [Chars '','', Many isSpace, Chars '']'']"

text \<open>The text of capture group 1 of the two expressions that have one: the sixth item.\<close>

definition group1 :: "string list \<Rightarrow> string" where
  "group1 ps = (if 5 < length ps then ps ! 5 else [])"

text \<open>The import line that is put before the content.\<close>

definition importLine :: "PluginRegistration \<Rightarrow> string" where
  "importLine r =
     ''import { '' @ pluginName r @ '' } from '' @ [CHR 0x27] @ packageName r @ [CHR 0x27]
       @ '';\<newline>''"

definition addImport :: "PluginRegistration \<Rightarrow> string \<Rightarrow> string" where
  "addImport r configContent =
     (if \<not> rx_test (importRegex (pluginName r) (packageName r)) configContent
      then importLine r @ configContent
      else configContent)"

definition cleanPlugins :: "string \<Rightarrow> string" where
  "cleanPlugins currentPlugins =
     trim (replace_first commaAtEnd [] (replace_all doubleComma '','' currentPlugins))"

definition newPluginsSection :: "PluginRegistration \<Rightarrow> string \<Rightarrow> string" where
  "newPluginsSection r currentPlugins =
     (let cleanedPlugins = cleanPlugins currentPlugins;
          separator = (if cleanedPlugins \<noteq> [] then '','' else [])
      in ''plugins: ['' @ cleanedPlugins @ separator @ pluginConfig r @ '']'')"

definition registerPlugin :: "PluginRegistration \<Rightarrow> string \<Rightarrow> string" where
  "registerPlugin r configContent =
     (case rx_search pluginsRegex configContent of
        Some (pre, ps, post) \<Rightarrow>
          (if \<not> rx_test (pluginRegex (pluginName r)) (group1 ps)
           then replace_first pluginsRegex (newPluginsSection r (group1 ps)) configContent
           else configContent)
      | None \<Rightarrow>
          (case rx_search buildConfigRegex configContent of
             Some (pre, ps, post) \<Rightarrow>
               replace_first [Chars (group1 ps)]
                 (group1 ps @ ''\<newline>  plugins: ['' @ pluginConfig r @ ''],'') configContent
           | None \<Rightarrow> configContent))"

definition cleanUp :: "string \<Rightarrow> string" where
  "cleanUp configContent =
     replace_first commaBeforeClose '']''
       (replace_first commaAfterOpen ''['' (replace_all doubleComma '','' configContent))"

definition updatePayloadConfig :: "PluginRegistration \<Rightarrow> string \<Rightarrow> string" where
  "updatePayloadConfig r configContent = cleanUp (registerPlugin r (addImport r configContent))"

text \<open>
  The one installer of the repository, \<open>ShadcnPluginInstaller\<close>, with the path of the style
  sheet that its prompt returned (the empty answer stands for the default path).
\<close>

definition shadcnPluginConfig :: "string \<Rightarrow> string" where
  \<open>shadcnPluginConfig cssPath =
     ''\<newline>    shadcnPlugin({\<newline>'' @
     ''      enableAll: true,\<newline>'' @
     ''      customScssPath: "'' @ (if cssPath \<noteq> [] then cssPath else ''src/app/(payload)/custom.scss'') @ ''",\<newline>'' @
     ''      injectStyles: false,\<newline>'' @
     ''      customCSS: `\<newline>'' @
     ''        /* Add any additional custom CSS here */\<newline>'' @
     ''        :root {\<newline>'' @
     ''          --custom-color: #ff0000;\<newline>'' @
     ''        }\<newline>'' @
     ''      `,\<newline>'' @
     ''    })''\<close>

definition shadcnInstaller :: "string \<Rightarrow> PluginRegistration" where
  "shadcnInstaller cssPath =
     \<lparr> packageName = ''@payloadcms/plugin-shadcn'',
       pluginName = getPluginImportName ''@payloadcms/plugin-shadcn'',
       pluginConfig = shadcnPluginConfig cssPath \<rparr>"

text \<open>
  A name is plain when it is made of letters, digits and the signs \<open>@\<close>, \<open>/\<close>, \<open>-\<close> and \<open>_\<close>:
  none of these is special in a regular expression, so the spliced expressions read a plain
  name as literal text. The names of the installer of the repository are plain.
\<close>

definition plainName :: "string \<Rightarrow> bool" where
  "plainName s =
     (\<forall>c\<in>set s. isAlnum c \<or> c = CHR ''@'' \<or> c = CHR ''/'' \<or> c = CHR ''-'' \<or> c = CHR ''_'')"

definition plainRegistration :: "PluginRegistration \<Rightarrow> bool" where
  "plainRegistration r = (plainName (pluginName r) \<and> plainName (packageName r))"

text \<open>The import line without its last two code units, the semicolon and the line feed.\<close>

definition lineBody :: "PluginRegistration \<Rightarrow> string" where
  "lineBody r = ''import { '' @ pluginName r @ '' } from '' @ [CHR 0x27] @ packageName r @ [CHR 0x27]"

text \<open>
  A second installer, as a plugin author would write it against \<open>BasePluginInstaller\<close>: the
  default import name and an entry that calls it.
\<close>

definition sampleInstaller :: PluginRegistration where
  "sampleInstaller =
     \<lparr> packageName = ''@payloadcms/plugin-seo'',
       pluginName = getPluginImportName ''@payloadcms/plugin-seo'',
       pluginConfig = ''pluginseo({})'' \<rparr>"

text \<open>
  A Payload configuration as a code formatter writes it: each list on lines of its own, with a
  comma behind its last entry. The entries of the plugins list are the parameter.
\<close>

definition formattedConfig :: "string \<Rightarrow> string" where
  \<open>formattedConfig plugins =
     ''export default buildConfig({\<newline>'' @
     ''  collections: [\<newline>'' @
     ''    Users,\<newline>'' @
     ''    Media,\<newline>'' @
     ''  ],\<newline>'' @
     ''  globals: [\<newline>'' @
     ''    Nav,\<newline>'' @
     ''  ],\<newline>'' @
     ''  plugins: ['' @ plugins @ ''],\<newline>'' @
     ''});\<newline>''\<close>


section \<open>Files, failing operations and the backup\<close>

text \<open>
  The operations of \<open>fs-extra\<close> that \<open>updatePayloadConfigFile\<close> and \<open>backupFile\<close> call can fail.
  Which calls fail is a parameter of the model: a copy by its two paths, a read by its path, a
  write by its path, where a failing write leaves the file as it was or holding the first code
  units of the data. A failing copy changes nothing. \<open>pathExists\<close> never fails. An \<open>Error\<close> that is
  thrown is a value of type \<open>error\<close>.
\<close>

datatype error =
    ConfigNotFound
  | CopyFailed string string
  | ReadFailed string
  | WriteFailed string

datatype write_fault = WriteOk | WriteRefused | WriteTorn nat

record faults =
  copyFails :: "string \<Rightarrow> string \<Rightarrow> bool"
  readFails :: "string \<Rightarrow> bool"
  writeFault :: "string \<Rightarrow> write_fault"

definition pathExists :: "files \<Rightarrow> string \<Rightarrow> bool" where
  "pathExists fs p = (fs p \<noteq> None)"

definition fsCopy :: "faults \<Rightarrow> string \<Rightarrow> string \<Rightarrow> files \<Rightarrow> error + files" where
  "fsCopy env src dst fs =
     (case fs src of
        None \<Rightarrow> Inl (CopyFailed src dst)
      | Some bytes \<Rightarrow>
          if copyFails env src dst then Inl (CopyFailed src dst) else Inr (fs(dst \<mapsto> bytes)))"

definition readFile :: "faults \<Rightarrow> string \<Rightarrow> files \<Rightarrow> error + string" where
  "readFile env p fs =
     (case fs p of
        None \<Rightarrow> Inl (ReadFailed p)
      | Some bytes \<Rightarrow> if readFails env p then Inl (ReadFailed p) else Inr bytes)"

definition writeFile :: "faults \<Rightarrow> string \<Rightarrow> string \<Rightarrow> files \<Rightarrow> (error + unit) \<times> files" where
  "writeFile env p bytes fs =
     (case writeFault env p of
        WriteOk \<Rightarrow> (Inr (), fs(p \<mapsto> bytes))
      | WriteRefused \<Rightarrow> (Inl (WriteFailed p), fs)
      | WriteTorn n \<Rightarrow> (Inl (WriteFailed p), fs(p \<mapsto> take n bytes)))"

text \<open>
  \<open>findConfigFile\<close> returns the first candidate that exists. A relative candidate is joined to
  the working directory, which is an absolute, normalised path other than the root.
\<close>

definition isAbsolute :: "string \<Rightarrow> bool" where
  "isAbsolute p = (case p of [] \<Rightarrow> False | c # cs \<Rightarrow> c = CHR ''/'')"

definition pathJoin :: "string \<Rightarrow> string \<Rightarrow> string" where
  "pathJoin dir p = dir @ ''/'' @ p"

fun findConfigFile :: "string \<Rightarrow> string list \<Rightarrow> files \<Rightarrow> string option" where
  "findConfigFile cwd [] fs = None"
| "findConfigFile cwd (filePath # possiblePaths) fs =
     (let fullPath = (if isAbsolute filePath then filePath else pathJoin cwd filePath)
      in if pathExists fs fullPath then Some fullPath else findConfigFile cwd possiblePaths fs)"

text \<open>
  \<open>backupFile\<close> copies the file to the path with the suffix \<open>.bak\<close>. It catches a failure of the
  copy and returns \<open>null\<close> (here \<open>None\<close>) instead.
\<close>

definition backupFile :: "faults \<Rightarrow> string \<Rightarrow> files \<Rightarrow> string option \<times> files" where
  "backupFile env filePath fs =
     (let backupPath = filePath @ ''.bak''
      in if pathExists fs filePath
         then (case fsCopy env filePath backupPath fs of
                 Inr fs' \<Rightarrow> (Some backupPath, fs')
               | Inl e \<Rightarrow> (None, fs))
         else (None, fs))"

definition payloadConfigPaths :: "string list" where
  "payloadConfigPaths =
     [''src/payload.config.ts'', ''payload.config.ts'', ''src/payload.config.js'',
      ''payload.config.js'']"

text \<open>
  \<open>updatePayloadConfigFile\<close>: the body of its \<open>try\<close> block is \<open>patchFile\<close>, which ignores what
  \<open>backupFile\<close> returns; its \<open>catch\<close> block copies the backup over the file when a backup exists
  and throws the error again. An error thrown by that copy takes the place of the first one.
\<close>

definition patchFile ::
  "PluginRegistration \<Rightarrow> faults \<Rightarrow> string \<Rightarrow> files \<Rightarrow> (error + unit) \<times> files" where
  "patchFile r env configPath fs =
     (case backupFile env configPath fs of
        (backup, fs1) \<Rightarrow>
          (case readFile env configPath fs1 of
             Inl e \<Rightarrow> (Inl e, fs1)
           | Inr configContent \<Rightarrow> writeFile env configPath (updatePayloadConfig r configContent) fs1))"

definition updatePayloadConfigFile ::
  "PluginRegistration \<Rightarrow> faults \<Rightarrow> string \<Rightarrow> files \<Rightarrow> (error + unit) \<times> files" where
  "updatePayloadConfigFile r env cwd fs =
     (case findConfigFile cwd payloadConfigPaths fs of
        None \<Rightarrow> (Inl ConfigNotFound, fs)
      | Some configPath \<Rightarrow>
          (case patchFile r env configPath fs of
             (Inr u, fs2) \<Rightarrow> (Inr u, fs2)
           | (Inl e, fs2) \<Rightarrow>
               if pathExists fs2 (configPath @ ''.bak'')
               then (case fsCopy env (configPath @ ''.bak'') configPath fs2 of
                       Inr fs3 \<Rightarrow> (Inl e, fs3)
                     | Inl e' \<Rightarrow> (Inl e', fs2))
               else (Inl e, fs2)))"

definition noFaults :: faults where
  "noFaults = \<lparr> copyFails = (\<lambda>src dst. False), readFails = (\<lambda>p. False),
                 writeFault = (\<lambda>p. WriteOk) \<rparr>"

section \<open>Updating the registered files\<close>

text \<open>
  \<open>updateConfigs\<close> of \<open>ConfigHandler\<close> reads and writes through the text of the registered paths.
  Two texts can denote one file (\<open>./styles.css\<close> and \<open>styles.css\<close>, a relative and an absolute
  spelling, a link): \<open>resolve\<close> maps the text of a path to the file it denotes, and the files are
  looked up and written under what \<open>resolve\<close> returns. The reads and writes can fail as in the
  section before; an error that is thrown ends the loop, and what was written before stays
  written. The list that is returned holds the registered texts of the paths, as in the source.
\<close>

definition validateSingleConfig ::
  "(string \<Rightarrow> string) \<Rightarrow> faults \<Rightarrow> ConfigFile \<Rightarrow> files \<Rightarrow> error + ConfigValidation option" where
  "validateSingleConfig resolve env config fs =
     (if \<not> pathExists fs (resolve (path config)) then Inr None
      else (case readFile env (resolve (path config)) fs of
              Inl e \<Rightarrow> Inl e
            | Inr doc \<Rightarrow> Inr (Some (validate (template config) doc))))"

fun updateConfigs ::
  "(string \<Rightarrow> string) \<Rightarrow> faults \<Rightarrow> ConfigFile list \<Rightarrow> files \<Rightarrow> (error + string list) \<times> files" where
  "updateConfigs resolve env [] fs = (Inr [], fs)"
| "updateConfigs resolve env (config # configs) fs =
     (case validateSingleConfig resolve env config fs of
        Inl e \<Rightarrow> (Inl e, fs)
      | Inr checked \<Rightarrow>
          if (case checked of None \<Rightarrow> True | Some v \<Rightarrow> \<not> isValid v)
          then (case writeFile env (resolve (path config)) (content (template config)) fs of
                  (Inl e, fs1) \<Rightarrow> (Inl e, fs1)
                | (Inr u, fs1) \<Rightarrow>
                    (case updateConfigs resolve env configs fs1 of
                       (Inl e, fs2) \<Rightarrow> (Inl e, fs2)
                     | (Inr updated, fs2) \<Rightarrow> (Inr (path config # updated), fs2)))
          else updateConfigs resolve env configs fs)"

text \<open>
  A registered file is up to date when it exists and its content is valid for its template.
  The registered files are compatible when two of them that denote one file have the same
  template, or are both up to date already.
\<close>

definition upToDate :: "(string \<Rightarrow> string) \<Rightarrow> files \<Rightarrow> ConfigFile \<Rightarrow> bool" where
  "upToDate resolve fs config =
     (case fs (resolve (path config)) of
        None \<Rightarrow> False
      | Some doc \<Rightarrow> isValid (validate (template config) doc))"

definition compatible :: "(string \<Rightarrow> string) \<Rightarrow> files \<Rightarrow> ConfigFile list \<Rightarrow> bool" where
  "compatible resolve fs configs =
     (\<forall>a\<in>set configs. \<forall>b\<in>set configs.
        resolve (path a) = resolve (path b) \<longrightarrow>
        template a = template b \<or> (upToDate resolve fs a \<and> upToDate resolve fs b))"

text \<open>
  The resolution of a path on a POSIX system without links, as \<open>path.resolve\<close> computes it: a
  relative path is joined to the working directory, empty segments and \<open>.\<close> are dropped, and
  \<open>..\<close> drops the segment before it.
\<close>

fun segments :: "string \<Rightarrow> string \<Rightarrow> string list" where
  "segments acc [] = [rev acc]"
| "segments acc (c # cs) =
     (if c = CHR ''/'' then rev acc # segments [] cs else segments (c # acc) cs)"

fun normalizeSegments :: "string list \<Rightarrow> string list \<Rightarrow> string list" where
  "normalizeSegments stack [] = rev stack"
| "normalizeSegments stack (s # ss) =
     (if s = [] \<or> s = ''.'' then normalizeSegments stack ss
      else if s = ''..'' then normalizeSegments (tl stack) ss
      else normalizeSegments (s # stack) ss)"

definition pathResolve :: "string \<Rightarrow> string \<Rightarrow> string" where
  "pathResolve cwd p =
     (case normalizeSegments [] (segments [] (if isAbsolute p then p else pathJoin cwd p)) of
        [] \<Rightarrow> ''/''
      | s # ss \<Rightarrow> concat (map (\<lambda>x. CHR ''/'' # x) (s # ss)))"

section \<open>The name of a new collection\<close>

text \<open>
  \<open>generateCollectionCommand\<close> converts a name to Pascal case by an expression that it writes
  out twice: every run of hyphens, underscores and white space is removed together with the
  code unit behind it, which is put back in upper case, and then the first code unit is put in
  upper case. The callback of the first replacement receives the text of the group \<open>(.)?\<close>.
\<close>

definition isSeparator :: "char \<Rightarrow> bool" where
  "isSeparator c = (c = CHR ''-'' \<or> c = CHR ''_'' \<or> isSpace c)"

definition capture :: "string list \<Rightarrow> string" where
  "capture ps = (if 1 < length ps then ps ! 1 else [])"

definition upperFirst :: "string \<Rightarrow> string" where
  "upperFirst str =
     (case rx_at [One isDot] str of
        Some (ps, rest) \<Rightarrow> map toUpperCase (concat ps) @ rest
      | None \<Rightarrow> str)"

definition pascalCaseName :: "string \<Rightarrow> string" where
  "pascalCaseName str =
     upperFirst
       (replace_all_from [Many1 isSeparator, Opt isDot]
          (\<lambda>pre ps post. map toUpperCase (capture ps)) [] str)"

text \<open>
  The \<open>validate\<close> function of the name prompt returns \<open>true\<close> or a message. The prompt asks again
  until \<open>validate\<close> returns \<open>true\<close>: of the texts that the user types, it returns the first valid
  one; when none is valid the prompt does not return.
\<close>

datatype verdict = Valid | Invalid string

definition validateName :: "string \<Rightarrow> verdict" where
  "validateName input =
     (if trim input = [] then Invalid ''Collection name is required''
      else if \<not> isPascalIdentifier (pascalCaseName (trim input))
      then Invalid ''Collection name must be a valid PascalCase identifier''
      else Valid)"

fun promptName :: "string list \<Rightarrow> string option" where
  "promptName [] = None"
| "promptName (input # inputs) =
     (case validateName input of Valid \<Rightarrow> Some input | Invalid message \<Rightarrow> promptName inputs)"

text \<open>
  The command from the point where it asks for the name; \<open>config\<close> is what \<open>loadConfig\<close>
  returns. What the command does to the project from there is a sequence of calls; each call is
  an effect, and \<open>fails\<close> tells which calls throw. A call
  that throws outside a \<open>try\<close> block ends the command with that error; inside the \<open>try\<close> block
  of a generator it is logged. The answers to the prompts are given: the texts typed at the name
  prompt, the kind of generation, the template (its key and whether it is a local one) and the
  collection to clone. \<open>existing\<close> are the paths that \<open>findExistingCollections\<close> returns. The
  result is \<open>None\<close> when the name prompt does not return.
\<close>

datatype generation = Template | Clone | Fresh

record cliConfig =
  collectionsPath :: "string option"
  templatesPath :: "string option"

record answers =
  nameInputs :: "string list"
  generationType :: generation
  templateKey :: string
  templateLocal :: bool
  sourceCollection :: string

datatype effect =
    EnsureDir string
  | GenerateCollectionFiles string string string
  | GenerateFromLocalTemplate string string string string
  | CloneCollection string string string
  | UpdatePayloadConfig string string
  | LogError string
  | LogInfo string

datatype ending = Returned | Thrown

definition orDefault :: "string option \<Rightarrow> string \<Rightarrow> string" where
  "orDefault p d = (case p of Some (c # cs) \<Rightarrow> c # cs | Some [] \<Rightarrow> d | None \<Rightarrow> d)"

text \<open>The calls of a block in order, up to and with the first one that throws.\<close>

fun attempt :: "(effect \<Rightarrow> bool) \<Rightarrow> effect list \<Rightarrow> effect list \<times> bool" where
  "attempt fails [] = ([], True)"
| "attempt fails (e # es) =
     (if fails e then ([e], False)
      else (case attempt fails es of (performed, ok) \<Rightarrow> (e # performed, ok)))"

definition generateFromTemplate ::
  "cliConfig \<Rightarrow> (effect \<Rightarrow> bool) \<Rightarrow> answers \<Rightarrow> string \<Rightarrow> effect list \<times> ending" where
  "generateFromTemplate config fails ans collectionName =
     (let collectionsDir = orDefault (collectionsPath config) ''src/collections'';
          templatesDir = orDefault (templatesPath config) ''.payload/templates'';
          collectionDir = pathJoin collectionsDir (camelCase collectionName)
      in case attempt fails [EnsureDir collectionsDir, EnsureDir collectionDir] of
           (dirs, False) \<Rightarrow> (dirs, Thrown)
         | (dirs, True) \<Rightarrow>
             (case attempt fails
                     [if templateLocal ans
                      then GenerateFromLocalTemplate collectionName (templateKey ans)
                             (pathJoin templatesDir (templateKey ans)) collectionDir
                      else GenerateCollectionFiles collectionName (templateKey ans) collectionDir,
                      UpdatePayloadConfig collectionName collectionsDir] of
                (calls, True) \<Rightarrow> (dirs @ calls, Returned)
              | (calls, False) \<Rightarrow>
                  (dirs @ calls @ [LogError ''Failed to generate the collection''], Returned)))"

definition cloneExistingCollection ::
  "cliConfig \<Rightarrow> string list \<Rightarrow> (effect \<Rightarrow> bool) \<Rightarrow> answers \<Rightarrow> string \<Rightarrow> effect list \<times> ending" where
  "cloneExistingCollection config existing fails ans collectionName =
     (let collectionsDir = orDefault (collectionsPath config) ''src/collections''
      in if existing = [] then ([LogError ''No existing collections found to clone.''], Returned)
         else (case attempt fails
                      [CloneCollection (sourceCollection ans) collectionName collectionsDir,
                       UpdatePayloadConfig collectionName collectionsDir] of
                 (calls, True) \<Rightarrow> (calls, Returned)
               | (calls, False) \<Rightarrow>
                   (calls @ [LogError ''Failed to clone the collection''], Returned)))"

definition generateCollectionCommand ::
  "cliConfig \<Rightarrow> string list \<Rightarrow> (effect \<Rightarrow> bool) \<Rightarrow> string option \<Rightarrow> answers \<Rightarrow>
     (effect list \<times> ending) option" where
  "generateCollectionCommand config existing fails collectionName ans =
     (case (case collectionName of
              Some (c # cs) \<Rightarrow> Some (c # cs)
            | Some [] \<Rightarrow> map_option trim (promptName (nameInputs ans))
            | None \<Rightarrow> map_option trim (promptName (nameInputs ans))) of
        None \<Rightarrow> None
      | Some [] \<Rightarrow> Some ([LogError ''Collection name is required''], Returned)
      | Some (c # cs) \<Rightarrow>
          (let pascalName = pascalCaseName (c # cs)
           in Some (case generationType ans of
                      Template \<Rightarrow> generateFromTemplate config fails ans pascalName
                    | Clone \<Rightarrow> cloneExistingCollection config existing fails ans pascalName
                    | Fresh \<Rightarrow> ([LogInfo ''Starting fresh is not yet implemented.''], Returned))))"

text \<open>What \<open>loadConfig\<close> returns in a project without a configuration file.\<close>

definition defaultConfig :: cliConfig where
  "defaultConfig = \<lparr> collectionsPath = Some ''src/collections'', templatesPath = None \<rparr>"

section \<open>Cloning a collection\<close>





















section \<open>Facts about the matcher\<close>

lemma toUpperCase_upper: "isLower c \<Longrightarrow> isUpper (toUpperCase c)"
  by (auto simp: isLower_def isUpper_def toUpperCase_def)

lemma toLower_toUpper: "toLowerCase (toUpperCase c) = toLowerCase c"
  apply (auto simp: isLower_def isUpper_def toUpperCase_def toLowerCase_def)
  done

lemma rx_at_Many_only: "rx_at [Many p] s = Some ([takeWhile p s], dropWhile p s)"
  by (induction s) auto

lemma rx_at_Many_End: "\<forall>d\<in>set r. p d \<Longrightarrow> rx_at [Many p, End] r = Some ([r, []], [])"
  by (induction r) auto

lemma replace_all_One_empty:
  "replace_all_from [One P] (\<lambda>pre ps post. []) sofar s = filter (\<lambda>c. \<not> P c) s"
proof (induction s arbitrary: sofar)
  case Nil
  show ?case by (subst replace_all_from.simps) simp
next
  case (Cons c cs)
  show ?case by (subst replace_all_from.simps) (simp add: Cons)
qed

lemma replace_all_Many1_empty:
  "replace_all_from [Many1 p] (\<lambda>pre ps post. []) sofar s = filter (\<lambda>c. \<not> p c) s"
proof (induction "length s" arbitrary: s sofar rule: less_induct)
  case less
  show ?case
  proof (cases s)
    case Nil
    then show ?thesis by (subst replace_all_from.simps) simp
  next
    case (Cons c cs)
    show ?thesis
    proof (cases "p c")
      case True
      have at: "rx_at [Many1 p] s = Some ([c # takeWhile p cs], dropWhile p cs)"
        using True Cons by (simp add: rx_at_Many_only)
      have len: "length (dropWhile p cs) < length s"
        using Cons by (simp add: length_dropWhile_le le_imp_less_Suc)
      have "replace_all_from [Many1 p] (\<lambda>pre ps post. []) sofar s =
            replace_all_from [Many1 p] (\<lambda>pre ps post. []) (sofar @ c # takeWhile p cs) (dropWhile p cs)"
        using at len by (subst replace_all_from.simps) simp
      also have "\<dots> = filter (\<lambda>c. \<not> p c) (dropWhile p cs)"
        using less[OF len] by simp
      also have "\<dots> = filter (\<lambda>c. \<not> p c) (takeWhile p cs @ dropWhile p cs)"
      proof -
        have "filter (\<lambda>c. \<not> p c) (takeWhile p cs) = []"
          by (auto simp: filter_empty_conv dest: set_takeWhileD)
        then show ?thesis by (simp del: takeWhile_dropWhile_id)
      qed
      also have "\<dots> = filter (\<lambda>c. \<not> p c) s"
        using True Cons by simp
      finally show ?thesis .
    next
      case False
      have at: "rx_at [Many1 p] s = None" using False Cons by simp
      have "length cs < length s" using Cons by simp
      from less[OF this] show ?thesis using at Cons False
        by (subst replace_all_from.simps) simp
    qed
  qed
qed

lemma strip_prefix_Some: "strip_prefix l s = Some t \<longleftrightarrow> s = l @ t"
  by (induction l s rule: strip_prefix.induct) auto

lemma strip_prefix_append [simp]: "strip_prefix l (l @ t) = Some t"
  by (simp add: strip_prefix_Some)

lemma rx_at_sound:
  "rx_at rs s = Some (ps, u) \<Longrightarrow> s = concat ps @ u \<and> decomp rs ps u"
proof (induction rs s arbitrary: ps u rule: rx_at.induct)
  case (1 s)
  then show ?case by simp
next
  case (2 l rs s)
  then show ?case by (auto simp: strip_prefix_Some split: option.splits)
next
  case (3 rs s)
  then show ?case by simp
next
  case (4 l ls rs s)
  show ?case
  proof (cases "strip_prefix l s")
    case None
    then have "rx_at (AnyOf ls # rs) s = Some (ps, u)" using 4(4) by simp
    from 4(1)[OF None this] show ?thesis by (cases ps) auto
  next
    case (Some t)
    show ?thesis
    proof (cases "rx_at rs t")
      case None
      then have "rx_at (AnyOf ls # rs) s = Some (ps, u)" using 4(4) Some by simp
      from 4(3)[OF Some None this] show ?thesis by (cases ps) auto
    next
      case (Some a)
      obtain ps' u' where a: "a = (ps', u')" by (cases a)
      have eq: "ps = l # ps'" "u = u'" using 4(4) \<open>strip_prefix l s = Some t\<close> Some a by auto
      from 4(2)[OF \<open>strip_prefix l s = Some t\<close>, of ps' u'] Some a
      have "t = concat ps' @ u' \<and> decomp rs ps' u'" by simp
      then show ?thesis using eq \<open>strip_prefix l s = Some t\<close> by (auto simp: strip_prefix_Some)
    qed
  qed
next
  case (5 p rs)
  then show ?case by simp
next
  case (6 p rs c cs)
  then show ?case by (auto split: if_splits option.splits)
next
  case (7 p rs)
  then show ?case by (auto split: option.splits)
next
  case (8 p rs c cs)
  show ?case
  proof (cases "if p c then rx_at (Many p # rs) cs else None")
    case None
    then show ?thesis using 8(2)[OF None] 8(3) by (auto split: option.splits)
  next
    case (Some a)
    obtain ps' u' where a: "a = (ps', u')" by (cases a)
    have pc: "p c" and r: "rx_at (Many p # rs) cs = Some (ps', u')"
      using Some a by (auto split: if_splits)
    from 8(1)[OF pc r] have ih: "cs = concat ps' @ u'" "decomp (Many p # rs) ps' u'" by auto
    then obtain m qs where ps': "ps' = m # qs" by (cases ps') auto
    have "ps = (c # m) # qs" "u = u'" using 8(3) Some a ps' by auto
    then show ?thesis using ih ps' pc by auto
  qed
next
  case (9 p rs)
  then show ?case by simp
next
  case (10 p rs c cs)
  show ?case
  proof (cases "p c")
    case False
    then show ?thesis using 10(2) by simp
  next
    case True
    then obtain ps' u' where r: "rx_at (Many p # rs) cs = Some (ps', u')" and pu: "ps = cons_hd c ps'" "u = u'"
      using 10(2) by (auto split: option.splits)
    from 10(1)[OF True r] have ih: "cs = concat ps' @ u'" "decomp (Many p # rs) ps' u'" by auto
    then obtain m qs where ps': "ps' = m # qs" by (cases ps') auto
    then show ?thesis using ih pu True by auto
  qed
next
  case (11 p rs)
  then show ?case by (auto split: option.splits)
next
  case (12 p rs c cs)
  show ?case
  proof (cases "rx_at rs (c # cs)")
    case (Some a)
    obtain ps' u' where a: "a = (ps', u')" by (cases a)
    have r: "rx_at rs (c # cs) = Some (ps', u')" using Some a by simp
    have pu: "ps = [] # ps'" "u = u'" using 12(3) r by auto
    from 12(1)[OF r] have "c # cs = concat ps' @ u'" "decomp rs ps' u'" by auto
    then show ?thesis using pu by auto
  next
    case None
    then obtain ps' u' where pc: "p c" and r: "rx_at (Few p # rs) cs = Some (ps', u')"
      and pu: "ps = cons_hd c ps'" "u = u'"
      using 12(3) by (auto split: option.splits if_splits)
    from 12(2)[OF None pc r] have ih: "cs = concat ps' @ u'" "decomp (Few p # rs) ps' u'" by auto
    then obtain m qs where ps': "ps' = m # qs" by (cases ps') auto
    then show ?thesis using ih pu pc by auto
  qed
next
  case (13 p rs)
  then show ?case by (auto split: option.splits)
next
  case (14 p rs c cs)
  show ?case
  proof (cases "if p c then rx_at rs cs else None")
    case None
    then show ?thesis using 14(2)[OF None] 14(3) by (auto split: option.splits)
  next
    case (Some a)
    obtain ps' u' where a: "a = (ps', u')" by (cases a)
    have pc: "p c" and r: "rx_at rs cs = Some (ps', u')"
      using Some a by (auto split: if_splits)
    from 14(1)[OF pc r] have ih: "cs = concat ps' @ u'" "decomp rs ps' u'" by auto
    have "ps = [c] # ps'" "u = u'" using 14(3) Some a by auto
    then show ?thesis using ih pc by auto
  qed
next
  case (15 rs)
  then show ?case by (auto split: option.splits)
next
  case (16 rs c cs)
  then show ?case by simp
qed

lemma rx_at_Chars_append:
  "rx_at (Chars l # rs) (l @ t) = (case rx_at rs t of None \<Rightarrow> None | Some (ps, u) \<Rightarrow> Some (l # ps, u))"
  by simp

lemma rx_at_AnyOf_complete:
  "p \<in> set ls \<Longrightarrow> rx_at rs t \<noteq> None \<Longrightarrow> rx_at (AnyOf ls # rs) (p @ t) \<noteq> None"
proof (induction ls)
  case Nil
  then show ?case by simp
next
  case (Cons l ls)
  show ?case
  proof (cases "p = l")
    case True
    then show ?thesis using Cons.prems(2) by (auto split: option.splits)
  next
    case False
    then have "rx_at (AnyOf ls # rs) (p @ t) \<noteq> None" using Cons by simp
    then show ?thesis by (auto split: option.splits)
  qed
qed

lemma rx_at_Many_complete:
  "\<forall>c\<in>set p. P c \<Longrightarrow> rx_at rs t \<noteq> None \<Longrightarrow> rx_at (Many P # rs) (p @ t) \<noteq> None"
proof (induction p)
  case Nil
  then show ?case by (cases t) (auto split: option.splits)
next
  case (Cons c p)
  then show ?case by (auto split: option.splits)
qed

lemma rx_at_Few_complete:
  "\<forall>c\<in>set p. P c \<Longrightarrow> rx_at rs t \<noteq> None \<Longrightarrow> rx_at (Few P # rs) (p @ t) \<noteq> None"
proof (induction p)
  case Nil
  then show ?case by (cases t) (auto split: option.splits)
next
  case (Cons c p)
  then show ?case by (auto split: option.splits)
qed

lemma rx_at_Opt_complete:
  "p = [] \<or> (\<exists>c. p = [c] \<and> P c) \<Longrightarrow> rx_at rs t \<noteq> None \<Longrightarrow> rx_at (Opt P # rs) (p @ t) \<noteq> None"
  by (cases t) (auto split: option.splits)

lemma rx_at_complete:
  "decomp rs ps u \<Longrightarrow> rx_at rs (concat ps @ u) \<noteq> None"
proof (induction rs arbitrary: ps)
  case Nil
  then show ?case by simp
next
  case (Cons r rs)
  then obtain p qs where ps: "ps = p # qs" by (cases ps) auto
  define t where "t = concat qs @ u"
  have c: "conforms r p t" and d: "decomp rs qs u" using Cons.prems ps by (auto simp: t_def)
  have ih: "rx_at rs t \<noteq> None" using Cons.IH[OF d] by (simp add: t_def)
  have "rx_at (r # rs) (p @ t) \<noteq> None"
  proof (cases r)
    case (Chars l)
    then show ?thesis using c ih by (auto split: option.splits)
  next
    case (AnyOf ls)
    then show ?thesis using c ih by (simp add: rx_at_AnyOf_complete)
  next
    case (One P)
    then show ?thesis using c ih by (auto split: option.splits)
  next
    case (Many P)
    then show ?thesis using c ih by (simp add: rx_at_Many_complete)
  next
    case (Many1 P)
    then obtain a p' where p: "p = a # p'" using c by (cases p) auto
    have "rx_at (Many P # rs) (p' @ t) \<noteq> None"
      using c ih Many1 p by (intro rx_at_Many_complete) auto
    then show ?thesis using Many1 p c by (auto split: option.splits)
  next
    case (Few P)
    then show ?thesis using c ih by (simp add: rx_at_Few_complete)
  next
    case (Opt P)
    then show ?thesis using c ih rx_at_Opt_complete[of p P rs t] by simp
  next
    case End
    then show ?thesis using c ih by (auto split: option.splits)
  qed
  then show ?case using ps by (simp add: t_def)
qed

lemma rx_at_iff: "rx_at rs s \<noteq> None \<longleftrightarrow> (\<exists>ps u. s = concat ps @ u \<and> decomp rs ps u)"
proof
  assume "rx_at rs s \<noteq> None"
  then obtain ps u where "rx_at rs s = Some (ps, u)" by auto
  from rx_at_sound[OF this] show "\<exists>ps u. s = concat ps @ u \<and> decomp rs ps u" by blast
next
  assume "\<exists>ps u. s = concat ps @ u \<and> decomp rs ps u"
  then show "rx_at rs s \<noteq> None" using rx_at_complete by blast
qed

lemma rx_search_None: "rx_search rs s = None \<longleftrightarrow> (\<forall>i\<le>length s. rx_at rs (drop i s) = None)"
proof (induction s)
  case Nil
  then show ?case by (auto split: option.splits)
next
  case (Cons c cs)
  have "(\<forall>i\<le>length (c # cs). rx_at rs (drop i (c # cs)) = None) \<longleftrightarrow>
        rx_at rs (c # cs) = None \<and> (\<forall>i\<le>length cs. rx_at rs (drop i cs) = None)"
  proof
    assume a: "\<forall>i\<le>length (c # cs). rx_at rs (drop i (c # cs)) = None"
    have "rx_at rs (c # cs) = None" using a[rule_format, of 0] by simp
    moreover have "\<forall>i\<le>length cs. rx_at rs (drop i cs) = None"
    proof (intro allI impI)
      fix i assume "i \<le> length cs"
      then show "rx_at rs (drop i cs) = None" using a[rule_format, of "Suc i"] by simp
    qed
    ultimately show "rx_at rs (c # cs) = None \<and> (\<forall>i\<le>length cs. rx_at rs (drop i cs) = None)" by simp
  next
    assume a: "rx_at rs (c # cs) = None \<and> (\<forall>i\<le>length cs. rx_at rs (drop i cs) = None)"
    show "\<forall>i\<le>length (c # cs). rx_at rs (drop i (c # cs)) = None"
    proof (intro allI impI)
      fix i assume "i \<le> length (c # cs)"
      then show "rx_at rs (drop i (c # cs)) = None" using a by (cases i) auto
    qed
  qed
  then show ?case using Cons by (auto split: option.splits)
qed

lemma rx_search_Some:
  "rx_search rs s = Some (pre, ps, post) \<Longrightarrow>
   s = pre @ concat ps @ post \<and> rx_at rs (concat ps @ post) = Some (ps, post) \<and>
   (\<forall>i<length pre. rx_at rs (drop i s) = None)"
proof (induction s arbitrary: pre)
  case Nil
  then have at: "rx_at rs [] = Some (ps, post)" and pre: "pre = []"
    by (auto split: option.splits)
  have e: "[] = concat ps @ post" using rx_at_sound[OF at] by simp
  have m: "rx_at rs (concat ps @ post) = Some (ps, post)" using at by (subst e[symmetric])
  have s: "[] = pre @ concat ps @ post" using e pre by (simp only: append_Nil)
  show ?case using m s pre by (simp only: list.size less_nat_zero_code simp_thms)
next
  case (Cons c cs)
  show ?case
  proof (cases "rx_at rs (c # cs)")
    case (Some a)
    then have "pre = []" "a = (ps, post)" using Cons.prems by auto
    then show ?thesis using Some rx_at_sound[of rs "c # cs" ps post] by auto
  next
    case None
    then obtain pre' where s: "rx_search rs cs = Some (pre', ps, post)" and pre: "pre = c # pre'"
      using Cons.prems by (auto split: option.splits)
    from Cons.IH[OF s] have ih: "cs = pre' @ concat ps @ post"
      "rx_at rs (concat ps @ post) = Some (ps, post)" "\<forall>i<length pre'. rx_at rs (drop i cs) = None"
      by auto
    have "\<forall>i<length pre. rx_at rs (drop i (c # cs)) = None"
    proof (intro allI impI)
      fix i assume "i < length pre"
      then show "rx_at rs (drop i (c # cs)) = None" using None ih(3) pre by (cases i) auto
    qed
    then show ?thesis using ih pre by simp
  qed
qed

lemma rx_search_intro:
  "rx_at rs (m @ post) = Some (ps, post') \<Longrightarrow> (\<forall>i<length pre. rx_at rs (drop i (pre @ m @ post)) = None) \<Longrightarrow>
   rx_search rs (pre @ m @ post) = Some (pre, ps, post')"
proof (induction pre)
  case Nil
  then show ?case by (cases "m @ post") auto
next
  case (Cons c pre)
  have 0: "rx_at rs (c # pre @ m @ post) = None" using Cons.prems(2)[rule_format, of 0] by simp
  have "\<forall>i<length pre. rx_at rs (drop i (pre @ m @ post)) = None"
  proof (intro allI impI)
    fix i assume "i < length pre"
    then show "rx_at rs (drop i (pre @ m @ post)) = None"
      using Cons.prems(2)[rule_format, of "Suc i"] by simp
  qed
  from Cons.IH[OF Cons.prems(1) this] show ?case using 0 by simp
qed

lemma rx_test_iff: "rx_test rs s \<longleftrightarrow> (\<exists>i\<le>length s. rx_at rs (drop i s) \<noteq> None)"
proof
  assume "rx_test rs s"
  then have "\<not> (\<forall>i\<le>length s. rx_at rs (drop i s) = None)"
    unfolding rx_test_def using rx_search_None[of rs s] by (simp only: simp_thms)
  then show "\<exists>i\<le>length s. rx_at rs (drop i s) \<noteq> None" by (simp only: not_all not_imp) 
next
  assume "\<exists>i\<le>length s. rx_at rs (drop i s) \<noteq> None"
  then have "\<not> (\<forall>i\<le>length s. rx_at rs (drop i s) = None)" by (simp only: not_all not_imp)
  then show "rx_test rs s"
    unfolding rx_test_def using rx_search_None[of rs s] by (simp only: simp_thms)
qed

lemma rx_test_append: "rx_test rs s \<Longrightarrow> rx_test rs (a @ s)"
proof -
  assume "rx_test rs s"
  then obtain i where i: "i \<le> length s" "rx_at rs (drop i s) \<noteq> None"
    using rx_test_iff[of rs s] by blast
  have d: "drop (length a + i) (a @ s) = drop i s" by simp
  have l: "length a + i \<le> length (a @ s)" using i(1) by simp
  show ?thesis
    unfolding rx_test_iff[of rs "a @ s"]
    using i(2) l d by (intro exI[of _ "length a + i"]) (simp only: simp_thms)
qed

section \<open>The case converters and the identifier grammar\<close>

lemma isAlnum_toUpperCase: "isAlnum c \<Longrightarrow> isAlnum (toUpperCase c)"
  by (auto simp: isAlnum_def isLower_def isUpper_def isDigit_def toUpperCase_def)

lemma isAlnum_not_sep: "isAlnum c \<Longrightarrow> \<not> isSpace c \<and> c \<noteq> CHR ''-'' \<and> c \<noteq> CHR ''_''"
  by (auto simp: isAlnum_def isLower_def isUpper_def isDigit_def isSpace_def)

lemma toUpperCase_sep: "\<not> isAlnum c \<Longrightarrow> toUpperCase c = c"
  by (auto simp: isAlnum_def toUpperCase_def)

lemma camel_pascal_tail:
  "0 < i \<Longrightarrow>
   replaceWordStarts (\<lambda>word index. if index = 0 then [toLowerCase word] else [toUpperCase word]) i w s =
   replaceWordStarts (\<lambda>letter index. [toUpperCase letter]) i w s"
  by (induction s arbitrary: i w) auto

lemma pascal_tail_chars:
  "\<forall>d\<in>set s. isNameChar d \<Longrightarrow>
   \<forall>d\<in>set (replaceWordStarts (\<lambda>letter index. [toUpperCase letter]) i w s). isNameChar d"
proof (induction s arbitrary: i w)
  case Nil
  then show ?case by simp
next
  case (Cons c cs)
  have "isNameChar (toUpperCase c)"
    using Cons.prems by (cases "isAlnum c") (auto simp: isNameChar_def isAlnum_toUpperCase toUpperCase_sep)
  then show ?case using Cons by auto
qed

lemma filters_alnum:
  "\<forall>d\<in>set s. isNameChar d \<Longrightarrow>
   \<forall>d\<in>set (filter (\<lambda>c. \<not> (c = CHR ''-'' \<or> c = CHR ''_'')) (filter (\<lambda>c. \<not> isSpace c) s)). isAlnum d"
  by (auto simp: isNameChar_def)

text \<open>
  Claim C7, as amended. The claim says that \<open>toPascalCase x\<close> matches
  \<open>^[A-Z][A-Za-z0-9]*$\<close> and that \<open>camelCase x\<close> is \<open>toPascalCase x\<close> with its first
  character lowercased, for every \<open>x\<close>. The converters validate nothing, so this holds on the
  names they are meant for: the first part when \<open>x\<close> begins with an ASCII letter and goes on
  with ASCII letters, digits, white space, hyphens and underscores; the second part when \<open>x\<close>
  begins with an ASCII letter or digit.
\<close>

theorem toPascalCase_identifier:
  "((isLower c \<or> isUpper c) \<and> (\<forall>d\<in>set cs. isNameChar d) \<longrightarrow> isPascalIdentifier (toPascalCase (c # cs))) \<and>
   (isAlnum c \<longrightarrow> camelCase (c # cs) = lowerFirst (toPascalCase (c # cs)))"
proof (intro conjI impI)
  let ?f = "\<lambda>letter index. [toUpperCase letter] :: string"
  let ?g = "\<lambda>word index. if index = (0::nat) then [toLowerCase word] else [toUpperCase word]"
  let ?clean = "\<lambda>s. filter (\<lambda>c. \<not> (c = CHR ''-'' \<or> c = CHR ''_'')) (filter (\<lambda>c. \<not> isSpace c) s)"
  have pascal: "toPascalCase s = ?clean (replaceWordStarts ?f 0 False s)" for s
    by (simp add: toPascalCase_def replace_all_def replace_all_One_empty replace_all_Many1_empty)
  have camel: "camelCase s = ?clean (replaceWordStarts ?g 0 False s)" for s
    by (simp add: camelCase_def replace_all_def replace_all_One_empty replace_all_Many1_empty)
  {
    assume h: "(isLower c \<or> isUpper c) \<and> (\<forall>d\<in>set cs. isNameChar d)"
    then have an: "isAlnum c" by (auto simp: isAlnum_def)
    have up: "isUpper (toUpperCase c)"
      using h by (auto simp: toUpperCase_upper) (simp add: toUpperCase_def isLower_def isUpper_def)
    have keep: "\<not> isSpace (toUpperCase c) \<and> toUpperCase c \<noteq> CHR ''-'' \<and> toUpperCase c \<noteq> CHR ''_''"
      using isAlnum_not_sep[OF isAlnum_toUpperCase[OF an]] .
    have eq: "toPascalCase (c # cs) = toUpperCase c # ?clean (replaceWordStarts ?f 1 True cs)"
      using an keep by (simp add: pascal isWordChar_def)
    have rest: "\<forall>d\<in>set (?clean (replaceWordStarts ?f 1 True cs)). isAlnum d"
      using h by (intro filters_alnum pascal_tail_chars) simp
    show "isPascalIdentifier (toPascalCase (c # cs))"
      unfolding eq isPascalIdentifier_def using up rx_at_Many_End[OF rest] by simp
  }
  {
    assume an: "isAlnum c"
    have keepU: "\<not> isSpace (toUpperCase c) \<and> toUpperCase c \<noteq> CHR ''-'' \<and> toUpperCase c \<noteq> CHR ''_''"
      using isAlnum_not_sep[OF isAlnum_toUpperCase[OF an]] .
    have anL: "isAlnum (toLowerCase c)"
      using an by (auto simp: isAlnum_def isLower_def isUpper_def isDigit_def toLowerCase_def)
    have keepL: "\<not> isSpace (toLowerCase c) \<and> toLowerCase c \<noteq> CHR ''-'' \<and> toLowerCase c \<noteq> CHR ''_''"
      using isAlnum_not_sep[OF anL] .
    have eqP: "toPascalCase (c # cs) = toUpperCase c # ?clean (replaceWordStarts ?f 1 True cs)"
      using an keepU by (simp add: pascal isWordChar_def)
    have eqC: "camelCase (c # cs) = toLowerCase c # ?clean (replaceWordStarts ?g 1 True cs)"
      using an keepL by (simp add: camel isWordChar_def)
    show "camelCase (c # cs) = lowerFirst (toPascalCase (c # cs))"
      unfolding eqP eqC by (simp add: toLower_toUpper camel_pascal_tail)
  }
qed

text \<open>The theorem at the name \<open>my-cool collection\<close>.\<close>

theorem toPascalCase_identifier_witness:
  "isPascalIdentifier (toPascalCase ''my-cool collection'') \<and>
   camelCase ''my-cool collection'' = lowerFirst (toPascalCase ''my-cool collection'') \<and>
   toPascalCase ''my-cool collection'' = ''MyCoolCollection''"
proof -
  have a: "(isLower (CHR ''m'') \<or> isUpper (CHR ''m'')) \<and> (\<forall>d\<in>set ''y-cool collection''. isNameChar d)"
    by code_simp
  have b: "isAlnum (CHR ''m'')" by code_simp
  have c: "toPascalCase ''my-cool collection'' = ''MyCoolCollection''" by code_simp
  show ?thesis
    using toPascalCase_identifier[of "CHR ''m''" "''y-cool collection''"] a b c by simp
qed

text \<open>
  Claim C7 as stated fails: \<open>123abc\<close> is returned unchanged, which is no identifier, and on
  \<open>-foo\<close> both converters return \<open>Foo\<close>, since the first match is not at index 0.
\<close>

theorem toPascalCase_counterexample:
  "\<not> isPascalIdentifier (toPascalCase ''123abc'') \<and>
   camelCase ''-foo'' \<noteq> lowerFirst (toPascalCase ''-foo'')"
  by code_simp

section \<open>Validation of the registered files\<close>

lemma validateConfigs_length: "length (validateConfigs configs fs) = length configs"
  by (induction configs) (auto split: option.splits)

lemma validateConfigs_nth:
  "i < length configs \<Longrightarrow> fs (path (configs ! i)) = Some doc \<Longrightarrow>
   validateConfigs configs fs ! i =
     \<lparr> reportName = name (template (configs ! i)), reportPath = path (configs ! i),
       needsUpdate = \<not> isValid (validate (template (configs ! i)) doc), fileExists = True,
       validation = Some (validate (template (configs ! i)) doc) \<rparr>"
proof (induction configs arbitrary: i)
  case Nil
  then show ?case by simp
next
  case (Cons c cs)
  show ?case
  proof (cases i)
    case 0
    then show ?thesis using Cons.prems by (simp add: Let_def)
  next
    case (Suc j)
    then show ?thesis using Cons by simp
  qed
qed

lemma builtin_isValid:
  "t \<in> set CONFIG_TEMPLATES \<Longrightarrow>
   isValid (validate t doc) =
     (hasRequiredContent (validate t doc) \<and>
      (t = css \<or> js_includes doc ''export default'' \<or> js_includes doc ''module.exports''))"
  by (auto simp: CONFIG_TEMPLATES_def postcss_def tailwind_def css_def Let_def)

text \<open>
  Claim C6, as amended. The claim says that a registered file whose content contains the required
  marker of its template is reported with \<open>needsUpdate: false\<close>. \<open>needsUpdate\<close> is the negation
  of \<open>isValid\<close>, and for the PostCSS and Tailwind templates \<open>isValid\<close> also asks for a module
  format: the claim holds for a built-in template when the content contains \<open>export default\<close> or
  \<open>module.exports\<close> besides the marker, or when the template is the CSS one.
\<close>

theorem validateConfigs_marker:
  assumes "i < length configs"
    and "template (configs ! i) \<in> set CONFIG_TEMPLATES"
    and "fs (path (configs ! i)) = Some doc"
    and "hasRequiredContent (validate (template (configs ! i)) doc)"
    and "template (configs ! i) = css \<or> js_includes doc ''export default''
           \<or> js_includes doc ''module.exports''"
  shows "reportPath (validateConfigs configs fs ! i) = path (configs ! i) \<and>
         needsUpdate (validateConfigs configs fs ! i) = False"
  using assms by (simp add: validateConfigs_nth builtin_isValid)

text \<open>The theorem at a CommonJS PostCSS file of the standard handler.\<close>

theorem validateConfigs_marker_witness:
  \<open>let configs = createShadcnConfigHandler ''postcss.config.js'' ''tailwind.config.js'' ''globals.css'';
       fs = [''postcss.config.js'' \<mapsto> ''module.exports = { plugins: { "@tailwindcss/postcss": {} } }'']
   in 0 < length configs \<and> template (configs ! 0) \<in> set CONFIG_TEMPLATES
      \<and> hasRequiredContent (validate (template (configs ! 0))
            ''module.exports = { plugins: { "@tailwindcss/postcss": {} } }'')
      \<and> reportPath (validateConfigs configs fs ! 0) = ''postcss.config.js''
      \<and> needsUpdate (validateConfigs configs fs ! 0) = False\<close>
proof -
  let ?text = \<open>''module.exports = { plugins: { "@tailwindcss/postcss": {} } }''\<close>
  let ?configs = "createShadcnConfigHandler ''postcss.config.js'' ''tailwind.config.js'' ''globals.css''"
  let ?fs = "[''postcss.config.js'' \<mapsto> ?text]"
  have c0: "?configs ! 0 = \<lparr> path = ''postcss.config.js'', template = postcss \<rparr>"
    by (simp add: createShadcnConfigHandler_def addConfig_def)
  have 1: "0 < length ?configs" by (simp add: createShadcnConfigHandler_def addConfig_def)
  have 2: "template (?configs ! 0) \<in> set CONFIG_TEMPLATES" by (simp add: c0 CONFIG_TEMPLATES_def)
  have 3: "?fs (path (?configs ! 0)) = Some ?text" by (simp add: c0)
  have 4: "hasRequiredContent (validate (template (?configs ! 0)) ?text)"
    unfolding c0 by code_simp
  have 5: "js_includes ?text ''module.exports''" by code_simp
  have "reportPath (validateConfigs ?configs ?fs ! 0) = path (?configs ! 0) \<and>
        needsUpdate (validateConfigs ?configs ?fs ! 0) = False"
    using 1 2 3 4 5
    by (intro validateConfigs_marker[where i = 0 and configs = "?configs" and fs = "?fs" and doc = "?text"]) simp_all
  with 1 2 4 c0 show ?thesis
    by (simp add: Let_def)
qed

text \<open>
  Claim C6 as stated fails on a PostCSS file that contains the marker and neither module marker.
\<close>

theorem validateConfigs_marker_counterexample:
  \<open>hasRequiredContent (validate postcss ''plugins: ["@tailwindcss/postcss"]'') \<and>
   needsUpdate (validateConfigs [\<lparr> path = ''postcss.config.js'', template = postcss \<rparr>]
     [''postcss.config.js'' \<mapsto> ''plugins: ["@tailwindcss/postcss"]''] ! 0) = True\<close>
  by code_simp


section \<open>Facts about replacing and searching\<close>

lemma expand_plain: "CHR ''$'' \<notin> set repl \<Longrightarrow> expand pre m post repl = repl"
  by (induction pre m post repl rule: expand.induct) auto

lemma replace_first_plain:
  "CHR ''$'' \<notin> set repl \<Longrightarrow>
   replace_first rs repl s =
     (case rx_search rs s of None \<Rightarrow> s | Some (pre, ps, post) \<Rightarrow> pre @ repl @ post)"
  by (simp add: replace_first_def expand_plain split: option.splits)

lemma rx_search_prefix:
  "(\<forall>i<length l. rx_at rs (drop i (l @ x)) = None) \<Longrightarrow>
   rx_search rs (l @ x) = map_option (\<lambda>(pre, ps, post). (l @ pre, ps, post)) (rx_search rs x)"
proof (induction l)
  case Nil
  show ?case by (cases "rx_search rs x") auto
next
  case (Cons c l)
  have 0: "rx_at rs (c # l @ x) = None" using Cons.prems[rule_format, of 0] by simp
  have "\<forall>i<length l. rx_at rs (drop i (l @ x)) = None"
  proof (intro allI impI)
    fix i assume "i < length l"
    then show "rx_at rs (drop i (l @ x)) = None" using Cons.prems[rule_format, of "Suc i"] by simp
  qed
  from Cons.IH[OF this] show ?case using 0 by (cases "rx_search rs x") auto
qed

lemma replace_all_from_prefix:
  "(\<forall>i<length l. rx_at rs (drop i (l @ x)) = None) \<Longrightarrow>
   replace_all_from rs f sofar (l @ x) = l @ replace_all_from rs f (sofar @ l) x"
proof (induction l arbitrary: sofar)
  case Nil
  show ?case by simp
next
  case (Cons c l)
  have 0: "rx_at rs (c # l @ x) = None" using Cons.prems[rule_format, of 0] by simp
  have "\<forall>i<length l. rx_at rs (drop i (l @ x)) = None"
  proof (intro allI impI)
    fix i assume "i < length l"
    then show "rx_at rs (drop i (l @ x)) = None" using Cons.prems[rule_format, of "Suc i"] by simp
  qed
  from Cons.IH[OF this, of "sofar @ [c]"] have
    ih: "replace_all_from rs f (sofar @ [c]) (l @ x) = l @ replace_all_from rs f (sofar @ c # l) x"
    by simp
  have "replace_all_from rs f sofar ((c # l) @ x) = c # replace_all_from rs f (sofar @ [c]) (l @ x)"
    using 0 by (subst replace_all_from.simps) simp
  then show ?case using ih by simp
qed

lemma replace_all_from_const:
  "replace_all_from rs (\<lambda>pre ps post. g) a s = replace_all_from rs (\<lambda>pre ps post. g) b s"
proof (induction "length s" arbitrary: s a b rule: less_induct)
  case less
  show ?case
  proof (cases "rx_at rs s")
    case None
    show ?thesis
    proof (cases s)
      case Nil
      then show ?thesis using None
        by (simp add: replace_all_from.simps[of rs _ a] replace_all_from.simps[of rs _ b])
    next
      case (Cons c cs)
      have "replace_all_from rs (\<lambda>pre ps post. g) (a @ [c]) cs = replace_all_from rs (\<lambda>pre ps post. g) (b @ [c]) cs"
        using less[of cs] Cons by simp
      then show ?thesis using None Cons
        by (simp add: replace_all_from.simps[of rs _ a "c # cs"] replace_all_from.simps[of rs _ b "c # cs"])
    qed
  next
    case (Some m)
    obtain ps u where m: "m = (ps, u)" by (cases m)
    show ?thesis
    proof (cases "length u < length s")
      case True
      have "replace_all_from rs (\<lambda>pre ps post. g) (a @ concat ps) u = replace_all_from rs (\<lambda>pre ps post. g) (b @ concat ps) u"
        using less[OF True] by simp
      then show ?thesis using Some m True
        by (simp add: replace_all_from.simps[of rs _ a s] replace_all_from.simps[of rs _ b s])
    next
      case False
      show ?thesis
      proof (cases s)
        case Nil
        then show ?thesis using Some m False
          by (simp add: replace_all_from.simps[of rs _ a] replace_all_from.simps[of rs _ b])
      next
        case (Cons c cs)
        have "replace_all_from rs (\<lambda>pre ps post. g) (a @ [c]) cs = replace_all_from rs (\<lambda>pre ps post. g) (b @ [c]) cs"
          using less[of cs] Cons by simp
        then show ?thesis using Some m False Cons
          by (simp add: replace_all_from.simps[of rs _ a "c # cs"] replace_all_from.simps[of rs _ b "c # cs"])
      qed
    qed
  qed
qed

lemma replace_all_plain:
  "CHR ''$'' \<notin> set repl \<Longrightarrow>
   replace_all rs repl s = replace_all_from rs (\<lambda>pre ps post. repl) [] s"
  by (simp add: replace_all_def expand_plain)

lemma replace_all_prefix:
  assumes "CHR ''$'' \<notin> set repl" and "\<forall>i<length l. rx_at rs (drop i (l @ x)) = None"
  shows "replace_all rs repl (l @ x) = l @ replace_all rs repl x"
proof -
  have "replace_all rs repl (l @ x) = l @ replace_all_from rs (\<lambda>pre ps post. repl) ([] @ l) x"
    unfolding replace_all_plain[OF assms(1)] by (rule replace_all_from_prefix[OF assms(2)])
  also have "\<dots> = l @ replace_all rs repl x"
    unfolding replace_all_plain[OF assms(1)]
    using replace_all_from_const[of rs repl "[] @ l" x "[]"] by simp
  finally show ?thesis .
qed

lemma replace_first_prefix:
  assumes "CHR ''$'' \<notin> set repl" and "\<forall>i<length l. rx_at rs (drop i (l @ x)) = None"
  shows "replace_first rs repl (l @ x) = l @ replace_first rs repl x"
  unfolding replace_first_plain[OF assms(1)] rx_search_prefix[OF assms(2)]
  by (cases "rx_search rs x") auto

lemma first_occurrence:
  "a @ x # b = c @ y # d \<Longrightarrow> x \<notin> set c \<Longrightarrow> y \<notin> set a \<Longrightarrow> x \<noteq> y \<Longrightarrow> False"
proof (induction a arbitrary: c)
  case Nil
  then show ?case by (cases c) auto
next
  case (Cons h a)
  then show ?case by (cases c) auto
qed

section \<open>The import line\<close>

lemma decomp_Cons:
  "decomp (r # rs) ps u \<longleftrightarrow> (\<exists>p qs. ps = p # qs \<and> conforms r p (concat qs @ u) \<and> decomp rs qs u)"
  by (cases ps) auto

lemma pluginsRegex_match:
  assumes "rx_at pluginsRegex s = Some (ps, u)"
  shows "\<exists>w1 w2 b. ps = [''plugins'', w1, '':'', w2, ''['', b, '']''] \<and>
           s = ''plugins'' @ w1 @ '':'' @ w2 @ ''['' @ b @ '']'' @ u \<and>
           (\<forall>c\<in>set w1. isSpace c) \<and> (\<forall>c\<in>set w2. isSpace c)"
proof -
  from rx_at_sound[OF assms] have s: "s = concat ps @ u" and d: "decomp pluginsRegex ps u" by auto
  from d obtain w1 w2 b where "ps = [''plugins'', w1, '':'', w2, ''['', b, '']'']"
      "\<forall>c\<in>set w1. isSpace c" "\<forall>c\<in>set w2. isSpace c"
    unfolding pluginsRegex_def decomp_Cons by auto
  then show ?thesis using s by auto
qed

lemma buildConfigRegex_match:
  assumes "rx_at buildConfigRegex s = Some (ps, u)"
  shows "\<exists>w1 w2 b w3. ps = [''buildConfig'', w1, ''('', w2, ''{'', b, ''}'', w3, '')''] \<and>
           s = ''buildConfig'' @ w1 @ ''('' @ w2 @ ''{'' @ b @ ''}'' @ w3 @ '')'' @ u \<and>
           (\<forall>c\<in>set w1. isSpace c) \<and> (\<forall>c\<in>set w2. isSpace c) \<and> (\<forall>c\<in>set w3. isSpace c)"
proof -
  from rx_at_sound[OF assms] have s: "s = concat ps @ u" and d: "decomp buildConfigRegex ps u" by auto
  from d obtain w1 w2 b w3 where "ps = [''buildConfig'', w1, ''('', w2, ''{'', b, ''}'', w3, '')'']"
      "\<forall>c\<in>set w1. isSpace c" "\<forall>c\<in>set w2. isSpace c" "\<forall>c\<in>set w3. isSpace c"
    unfolding buildConfigRegex_def decomp_Cons by auto
  then show ?thesis using s by auto
qed

lemma plainName_chars:
  "plainName s \<Longrightarrow> c \<in> set s \<Longrightarrow>
   c \<noteq> CHR '':'' \<and> c \<noteq> CHR '','' \<and> c \<noteq> CHR ''['' \<and> c \<noteq> CHR '']'' \<and> c \<noteq> CHR ''('' \<and> c \<noteq> CHR '';''
   \<and> c \<noteq> CHR ''$'' \<and> \<not> isSpace c"
  by (auto simp: plainName_def isAlnum_def isLower_def isUpper_def isDigit_def isSpace_def)

lemma importLine_split: "importLine r = lineBody r @ CHR '';'' # ''\<newline>''"
  by (simp add: importLine_def lineBody_def)

lemma lineBody_chars:
  assumes "plainRegistration r" and "c \<in> set (lineBody r)"
  shows "c \<noteq> CHR '':'' \<and> c \<noteq> CHR '','' \<and> c \<noteq> CHR ''['' \<and> c \<noteq> CHR '']'' \<and> c \<noteq> CHR ''('' \<and> c \<noteq> CHR ''$''"
proof -
  have "c \<in> set ''import { '' \<or> c \<in> set (pluginName r) \<or> c \<in> set '' } from '' \<or> c = CHR 0x27 \<or> c \<in> set (packageName r)"
    using assms(2) by (auto simp: lineBody_def)
  then show ?thesis using assms(1) plainName_chars[of "pluginName r" c] plainName_chars[of "packageName r" c]
    by (auto simp: plainRegistration_def)
qed

lemma importLine_chars:
  assumes "plainRegistration r" and "c \<in> set (importLine r)"
  shows "c \<noteq> CHR '':'' \<and> c \<noteq> CHR '','' \<and> c \<noteq> CHR ''['' \<and> c \<noteq> CHR '']'' \<and> c \<noteq> CHR ''('' \<and> c \<noteq> CHR ''$''"
  using assms lineBody_chars[of r c] by (auto simp: importLine_split)

lemma no_headed_match_in_line:
  assumes headed: "\<And>s ps u. rx_at rs s = Some (ps, u) \<Longrightarrow>
             \<exists>a b. s = a @ k # b \<and> a \<noteq> [] \<and> hd a \<noteq> CHR ''\<newline>'' \<and> CHR '';'' \<notin> set a"
    and k: "k \<notin> set (lineBody r)" "k \<noteq> CHR '';''"
    and i: "i < length (importLine r)"
  shows "rx_at rs (drop i (importLine r @ x)) = None"
proof (rule ccontr)
  assume "rx_at rs (drop i (importLine r @ x)) \<noteq> None"
  then obtain ps u where "rx_at rs (drop i (importLine r @ x)) = Some (ps, u)" by auto
  from headed[OF this] obtain a b where
    m: "drop i (importLine r @ x) = a @ k # b" "a \<noteq> []" "hd a \<noteq> CHR ''\<newline>''" "CHR '';'' \<notin> set a"
    by blast
  show False
  proof (cases "i \<le> length (lineBody r)")
    case True
    then have "drop i (importLine r @ x) = drop i (lineBody r) @ CHR '';'' # (''\<newline>'' @ x)"
      by (simp add: importLine_split)
    then have e: "a @ k # b = drop i (lineBody r) @ CHR '';'' # (''\<newline>'' @ x)" using m(1) by simp
    have "k \<notin> set (drop i (lineBody r))" using k(1) in_set_dropD by fast
    from first_occurrence[OF e this m(4) k(2)] show False .
  next
    case False
    then have "i = Suc (length (lineBody r))" using i by (simp add: importLine_split)
    then have "drop i (importLine r @ x) = ''\<newline>'' @ x" by (simp add: importLine_split)
    then have "a @ k # b = CHR ''\<newline>'' # x" using m(1) by simp
    then show False using m(2,3) by (cases a) auto
  qed
qed

lemma no_plugins_match_in_line:
  assumes "plainRegistration r" and "i < length (importLine r)"
  shows "rx_at pluginsRegex (drop i (importLine r @ x)) = None"
proof (rule no_headed_match_in_line[where k = "CHR '':''"])
  fix s ps u assume "rx_at pluginsRegex s = Some (ps, u)"
  from pluginsRegex_match[OF this] obtain w1 w2 b where
    s: "s = ''plugins'' @ w1 @ '':'' @ w2 @ ''['' @ b @ '']'' @ u" and w: "\<forall>c\<in>set w1. isSpace c" by blast
  have "s = (''plugins'' @ w1) @ CHR '':'' # (w2 @ ''['' @ b @ '']'' @ u)" using s by simp
  moreover have "CHR '';'' \<notin> set (''plugins'' @ w1)" using w by (auto simp: isSpace_def)
  ultimately show "\<exists>a b. s = a @ CHR '':'' # b \<and> a \<noteq> [] \<and> hd a \<noteq> CHR ''\<newline>'' \<and> CHR '';'' \<notin> set a"
    by (intro exI[of _ "''plugins'' @ w1"] exI[of _ "w2 @ ''['' @ b @ '']'' @ u"]) simp
next
  show "CHR '':'' \<notin> set (lineBody r)" using lineBody_chars[OF assms(1)] by blast
  show "CHR '':'' \<noteq> CHR '';''" by simp
  show "i < length (importLine r)" by (rule assms(2))
qed

lemma no_buildConfig_match_in_line:
  assumes "plainRegistration r" and "i < length (importLine r)"
  shows "rx_at buildConfigRegex (drop i (importLine r @ x)) = None"
proof (rule no_headed_match_in_line[where k = "CHR ''(''"])
  fix s ps u assume "rx_at buildConfigRegex s = Some (ps, u)"
  from buildConfigRegex_match[OF this] obtain w1 w2 b w3 where
    s: "s = ''buildConfig'' @ w1 @ ''('' @ w2 @ ''{'' @ b @ ''}'' @ w3 @ '')'' @ u"
    and w: "\<forall>c\<in>set w1. isSpace c" by blast
  have "s = (''buildConfig'' @ w1) @ CHR ''('' # (w2 @ ''{'' @ b @ ''}'' @ w3 @ '')'' @ u)" using s by simp
  moreover have "CHR '';'' \<notin> set (''buildConfig'' @ w1)" using w by (auto simp: isSpace_def)
  ultimately show "\<exists>a b. s = a @ CHR ''('' # b \<and> a \<noteq> [] \<and> hd a \<noteq> CHR ''\<newline>'' \<and> CHR '';'' \<notin> set a"
    by (intro exI[of _ "''buildConfig'' @ w1"] exI[of _ "w2 @ ''{'' @ b @ ''}'' @ w3 @ '')'' @ u"]) simp
next
  show "CHR ''('' \<notin> set (lineBody r)" using lineBody_chars[OF assms(1)] by blast
  show "CHR ''('' \<noteq> CHR '';''" by simp
  show "i < length (importLine r)" by (rule assms(2))
qed

lemma no_match_by_head:
  assumes "k \<notin> set l" and "i < length l"
  shows "rx_at (Chars (k # t) # rs) (drop i (l @ x)) = None"
proof -
  have "drop i (l @ x) = (l ! i) # drop (Suc i) (l @ x)"
    using assms(2) by (simp add: Cons_nth_drop_Suc nth_append)
  moreover have "l ! i \<noteq> k" using assms by (metis nth_mem)
  ultimately show ?thesis by simp
qed

lemma cleanUp_importLine:
  assumes "plainRegistration r"
  shows "cleanUp (importLine r @ y) = importLine r @ cleanUp y"
proof -
  have c: "CHR '','' \<notin> set (importLine r)" and b: "CHR ''['' \<notin> set (importLine r)"
    using importLine_chars[OF assms] by blast+
  have n1: "\<forall>i<length (importLine r). rx_at doubleComma (drop i (importLine r @ z)) = None" for z
    unfolding doubleComma_def by (intro allI impI no_match_by_head[OF c])
  have n2: "\<forall>i<length (importLine r). rx_at commaAfterOpen (drop i (importLine r @ z)) = None" for z
    unfolding commaAfterOpen_def by (intro allI impI no_match_by_head[OF b])
  have n3: "\<forall>i<length (importLine r). rx_at commaBeforeClose (drop i (importLine r @ z)) = None" for z
    unfolding commaBeforeClose_def by (intro allI impI no_match_by_head[OF c])
  have 1: "replace_all doubleComma '','' (importLine r @ y) = importLine r @ replace_all doubleComma '','' y"
    by (rule replace_all_prefix[OF _ n1]) simp
  have 2: "replace_first commaAfterOpen ''['' (importLine r @ z) = importLine r @ replace_first commaAfterOpen ''['' z" for z
    by (rule replace_first_prefix[OF _ n2]) simp
  have 3: "replace_first commaBeforeClose '']'' (importLine r @ z) = importLine r @ replace_first commaBeforeClose '']'' z" for z
    by (rule replace_first_prefix[OF _ n3]) simp
  show ?thesis by (simp add: cleanUp_def 1 2 3)
qed

lemma importRegex_importLine: "rx_test (importRegex (pluginName r) (packageName r)) (importLine r @ x)"
proof -
  let ?ps = "[''import'', '' '', ''{ '', pluginName r, '' } '', ''from'', '' '', [CHR 0x27], packageName r, [CHR 0x27]]"
  have d: "decomp (importRegex (pluginName r) (packageName r)) ?ps (CHR '';'' # ''\<newline>'' @ x)"
    by (simp add: importRegex_def isSpace_def isDot_def isQuote_def)
  have e: "importLine r @ x = concat ?ps @ (CHR '';'' # ''\<newline>'' @ x)"
    by (simp add: importLine_def)
  have "rx_at (importRegex (pluginName r) (packageName r)) (drop 0 (importLine r @ x)) \<noteq> None"
    using rx_at_complete[OF d] e by simp
  then show ?thesis unfolding rx_test_iff by blast
qed

lemma rx_search_pluginsRegex_line:
  "plainRegistration r \<Longrightarrow>
   rx_search pluginsRegex (importLine r @ c) =
     map_option (\<lambda>(pre, ps, post). (importLine r @ pre, ps, post)) (rx_search pluginsRegex c)"
  by (rule rx_search_prefix) (intro allI impI no_plugins_match_in_line)

lemma rx_search_buildConfigRegex_line:
  "plainRegistration r \<Longrightarrow>
   rx_search buildConfigRegex (importLine r @ c) =
     map_option (\<lambda>(pre, ps, post). (importLine r @ pre, ps, post)) (rx_search buildConfigRegex c)"
  by (rule rx_search_prefix) (intro allI impI no_buildConfig_match_in_line)

lemma registerPlugin_line:
  assumes "plainRegistration r"
    and "rx_search pluginsRegex c \<noteq> None \<or> rx_search buildConfigRegex c = None"
  shows "\<exists>y. registerPlugin r (importLine r @ c) = importLine r @ y"
proof (cases "rx_search pluginsRegex c")
  case None
  then have "rx_search buildConfigRegex c = None" using assms(2) by simp
  then have "registerPlugin r (importLine r @ c) = importLine r @ c"
    using None assms(1)
    by (simp add: registerPlugin_def rx_search_pluginsRegex_line rx_search_buildConfigRegex_line)
  then show ?thesis by blast
next
  case (Some m)
  obtain pre ps post where m: "m = (pre, ps, post)" by (cases m)
  have s: "rx_search pluginsRegex (importLine r @ c) = Some (importLine r @ pre, ps, post)"
    using Some m assms(1) by (simp add: rx_search_pluginsRegex_line)
  show ?thesis
  proof (cases "rx_test (pluginRegex (pluginName r)) (group1 ps)")
    case True
    then have "registerPlugin r (importLine r @ c) = importLine r @ c"
      using s by (simp add: registerPlugin_def)
    then show ?thesis by blast
  next
    case False
    then have "registerPlugin r (importLine r @ c) =
        importLine r @ (pre @ expand (importLine r @ pre) (concat ps) post (newPluginsSection r (group1 ps)) @ post)"
      using s by (simp add: registerPlugin_def replace_first_def)
    then show ?thesis by blast
  qed
qed

lemma expand_prefix_plain:
  "CHR ''$'' \<notin> set a \<Longrightarrow> expand p m q (a @ b) = a @ expand p m q b"
proof (induction a)
  case Nil
  show ?case by simp
next
  case (Cons c a)
  then have ih: "expand p m q (a @ b) = a @ expand p m q b" and c: "c \<noteq> CHR ''$''" by auto
  show ?case
  proof (cases "a @ b")
    case Nil
    then show ?thesis by simp
  next
    case (Cons d t)
    then have "expand p m q (c # a @ b) = c # expand p m q (a @ b)" using c by simp
    then show ?thesis using ih by simp
  qed
qed

lemma js_includes_iff: "js_includes s n \<longleftrightarrow> (\<exists>a b. s = a @ n @ b)"
proof (induction s)
  case Nil
  show ?case by auto
next
  case (Cons c cs)
  show ?case
  proof
    assume "js_includes (c # cs) n"
    then consider "strip_prefix n (c # cs) \<noteq> None" | "js_includes cs n" by auto
    then show "\<exists>a b. c # cs = a @ n @ b"
    proof cases
      case 1
      then obtain t where "c # cs = n @ t" by (auto simp: strip_prefix_Some)
      then have "c # cs = [] @ n @ t" by simp
      then show ?thesis by blast
    next
      case 2
      then obtain a b where "cs = a @ n @ b" using Cons by blast
      then have "c # cs = (c # a) @ n @ b" by simp
      then show ?thesis by blast
    qed
  next
    assume "\<exists>a b. c # cs = a @ n @ b"
    then obtain a b where e: "c # cs = a @ n @ b" by blast
    show "js_includes (c # cs) n"
    proof (cases a)
      case Nil
      then have "strip_prefix n (c # cs) = Some b" using e by (simp add: strip_prefix_Some)
      then show ?thesis by simp
    next
      case (Cons d a')
      then have "cs = a' @ n @ b" using e by simp
      then have "js_includes cs n" using Cons.IH by blast
      then show ?thesis by simp
    qed
  qed
qed

lemma rx_search_Chars:
  assumes "rx_search [Chars body] x = Some (pre, ps, post)"
  shows "ps = [body] \<and> x = pre @ body @ post"
proof -
  from rx_search_Some[OF assms] have x: "x = pre @ concat ps @ post"
    and at: "rx_at [Chars body] (concat ps @ post) = Some (ps, post)" by auto
  from rx_at_sound[OF at] have "decomp [Chars body] ps post" by simp
  then have "ps = [body]" by (cases ps) (auto simp: decomp_Cons)
  then show ?thesis using x by simp
qed

text \<open>
  Without a plugins list, the new list is put behind the first occurrence of the body of the
  \<open>buildConfig\<close> call. The import line stays in front when that occurrence does not end inside
  the line.
\<close>

lemma insert_behind_line:
  assumes plain: "CHR ''$'' \<notin> set l"
    and inside: "\<not> js_includes (butlast l) body"
  shows "\<exists>y. replace_first [Chars body] (body @ ins) (l @ c) = l @ y"
proof (cases "rx_search [Chars body] (l @ c)")
  case None
  then show ?thesis by (simp add: replace_first_def)
next
  case (Some m)
  obtain pre ps post where m: "m = (pre, ps, post)" by (cases m)
  have s: "rx_search [Chars body] (l @ c) = Some (pre, ps, post)" using Some m by simp
  from rx_search_Chars[OF s] have ps: "ps = [body]" and e: "l @ c = pre @ body @ post" by auto
  have r: "replace_first [Chars body] (body @ ins) (l @ c) = pre @ expand pre body post (body @ ins) @ post"
    using s ps by (simp add: replace_first_def)
  from e obtain us where "(l = pre @ us \<and> us @ c = body @ post) \<or> (l @ us = pre \<and> c = us @ body @ post)"
    by (auto simp: append_eq_append_conv2)
  then show ?thesis
  proof
    assume "l @ us = pre \<and> c = us @ body @ post"
    then have "replace_first [Chars body] (body @ ins) (l @ c) = l @ (us @ expand pre body post (body @ ins) @ post)"
      using r by auto
    then show ?thesis by blast
  next
    assume h: "l = pre @ us \<and> us @ c = body @ post"
    then obtain vs where "(us = body @ vs \<and> vs @ c = post) \<or> (us @ vs = body \<and> c = vs @ post)"
      by (auto simp: append_eq_append_conv2)
    then show ?thesis
    proof
      assume k: "us @ vs = body \<and> c = vs @ post"
      have "CHR ''$'' \<notin> set us" using plain h by auto
      then have "expand pre body post (us @ (vs @ ins)) = us @ expand pre body post (vs @ ins)"
        by (rule expand_prefix_plain)
      then have "replace_first [Chars body] (body @ ins) (l @ c) = l @ (expand pre body post (vs @ ins) @ post)"
        using r h k by auto
      then show ?thesis by blast
    next
      assume k: "us = body @ vs \<and> vs @ c = post"
      show ?thesis
      proof (cases vs)
        case Nil
        then have b: "us = body" using k by simp
        have "CHR ''$'' \<notin> set us" using plain h by auto
        then have "expand pre body post (us @ ins) = us @ expand pre body post ins"
          by (rule expand_prefix_plain)
        then have "replace_first [Chars body] (body @ ins) (l @ c) = l @ (expand pre body post ins @ post)"
          using r h b by auto
        then show ?thesis by blast
      next
        case (Cons v vs')
        then have "l = pre @ body @ vs" "vs \<noteq> []" using h k by auto
        then have "butlast l = pre @ body @ butlast vs" by (simp add: butlast_append)
        then have "js_includes (butlast l) body" unfolding js_includes_iff by blast
        then show ?thesis using inside by simp
      qed
    qed
  qed
qed


lemma registerPlugin_importLine:
  assumes plain: "plainRegistration r"
    and inside: "\<And>pre ps post. rx_search pluginsRegex c = None \<Longrightarrow>
        rx_search buildConfigRegex c = Some (pre, ps, post) \<Longrightarrow>
        \<not> js_includes (lineBody r @ '';'') (group1 ps)"
  shows "\<exists>y. registerPlugin r (importLine r @ c) = importLine r @ y"
proof (cases "rx_search pluginsRegex c \<noteq> None \<or> rx_search buildConfigRegex c = None")
  case True
  then show ?thesis by (rule registerPlugin_line[OF plain])
next
  case False
  then have n: "rx_search pluginsRegex c = None" by (cases "rx_search pluginsRegex c") auto
  from False obtain pre ps post where b: "rx_search buildConfigRegex c = Some (pre, ps, post)"
    by auto
  have n': "rx_search pluginsRegex (importLine r @ c) = None"
    using n plain by (simp add: rx_search_pluginsRegex_line)
  have b': "rx_search buildConfigRegex (importLine r @ c) = Some (importLine r @ pre, ps, post)"
    using b plain by (simp add: rx_search_buildConfigRegex_line)
  have reg: "registerPlugin r (importLine r @ c) =
      replace_first [Chars (group1 ps)]
        (group1 ps @ ''\<newline>  plugins: ['' @ pluginConfig r @ ''],'') (importLine r @ c)"
    using n' b' by (simp add: registerPlugin_def)
  have d: "CHR ''$'' \<notin> set (importLine r)" using importLine_chars[OF plain] by blast
  have bl: "butlast (importLine r) = lineBody r @ '';''" by (simp add: importLine_split butlast_append)
  have i: "\<not> js_includes (butlast (importLine r)) (group1 ps)"
    unfolding bl by (rule inside[OF n b])
  show ?thesis unfolding reg by (rule insert_behind_line[OF d i])
qed

text \<open>
  Claim C3, as amended. The patcher has one form of import line and does not consult the format
  detector. Whatever the detector's classification \<open>fmt\<close> of the content is (CommonJS included):
  when no import of the name from the package is found (plain names), the result is the line
  \<open>import { name } from 'package';\<close>, followed by the cleaned-up text that the registration of
  the plugin leaves behind that line. This holds when a plugins list is found, when neither a
  list nor a \<open>buildConfig\<close> call is found, and when only a \<open>buildConfig\<close> call is found whose body
  does not occur inside the import line itself (an empty body does, and the new list is then put
  in front of the line).
\<close>

theorem updatePayloadConfig_import_line:
  assumes plain: "plainRegistration r"
    and detector: "t \<in> set CONFIG_TEMPLATES" "format (validate t c) = fmt"
    and lacking: "\<not> rx_test (importRegex (pluginName r) (packageName r)) c"
    and inside: "\<And>pre ps post. rx_search pluginsRegex c = None \<Longrightarrow>
        rx_search buildConfigRegex c = Some (pre, ps, post) \<Longrightarrow>
        \<not> js_includes (lineBody r @ '';'') (group1 ps)"
  shows "updatePayloadConfig r c =
           (''import { '' @ pluginName r @ '' } from '' @ [CHR 0x27] @ packageName r @ [CHR 0x27]
              @ '';\<newline>'')
           @ cleanUp (drop (length (importLine r)) (registerPlugin r (importLine r @ c)))"
proof -
  have "\<exists>y. registerPlugin r (importLine r @ c) = importLine r @ y"
    by (rule registerPlugin_importLine[OF plain]) (rule inside; assumption)
  then obtain y where y: "registerPlugin r (importLine r @ c) = importLine r @ y" ..
  have "updatePayloadConfig r c = cleanUp (importLine r @ y)"
    using lacking y by (simp add: updatePayloadConfig_def addImport_def)
  also have "\<dots> = importLine r @ cleanUp y" by (rule cleanUp_importLine[OF plain])
  also have "\<dots> = importLine r @ cleanUp (drop (length (importLine r)) (registerPlugin r (importLine r @ c)))"
    using y by simp
  finally show ?thesis by (simp add: importLine_def)
qed

text \<open>
  The theorem at a CommonJS content that calls \<open>buildConfig\<close> and has no plugins list.
\<close>

theorem updatePayloadConfig_import_line_witness:
  \<open>let c = ''module.exports = buildConfig({\<newline>  collections: [Users]\<newline>});''
   in plainRegistration sampleInstaller \<and>
      format (validate postcss c) = Some CommonJS \<and>
      \<not> rx_test (importRegex (pluginName sampleInstaller) (packageName sampleInstaller)) c \<and>
      rx_search pluginsRegex c = None \<and> rx_search buildConfigRegex c \<noteq> None \<and>
      updatePayloadConfig sampleInstaller c =
        ''import { pluginseo } from '@payloadcms/plugin-seo';\<newline>module.exports = buildConfig({\<newline>  collections: [Users]\<newline>\<newline>  plugins: [pluginseo({})],});''\<close>
proof -
  let ?r = sampleInstaller
  let ?c = "''module.exports = buildConfig({\<newline>  collections: [Users]\<newline>});''"
  let ?ps = "[''buildConfig'', [], ''('', [], ''{'', ''\<newline>  collections: [Users]\<newline>'', ''}'', [], '')'']"
  have 1: "plainRegistration ?r" by code_simp
  have 2: "postcss \<in> set CONFIG_TEMPLATES" by (simp add: CONFIG_TEMPLATES_def)
  have 3: "format (validate postcss ?c) = Some CommonJS" by code_simp
  have 4: "\<not> rx_test (importRegex (pluginName ?r) (packageName ?r)) ?c" by code_simp
  have 5: "rx_search pluginsRegex ?c = None" by code_simp
  have 6: "rx_search buildConfigRegex ?c = Some (''module.exports = '', ?ps, '';'')" by code_simp
  have 7: "\<not> js_includes (lineBody ?r @ '';'') (group1 ?ps)" by code_simp
  have 8: "\<not> js_includes (lineBody ?r @ '';'') (group1 ps)"
    if "rx_search buildConfigRegex ?c = Some (pre, ps, post)" for pre ps post
    using that 6 7 by simp
  have 9: "cleanUp (drop (length (importLine ?r)) (registerPlugin ?r (importLine ?r @ ?c))) =
      ''module.exports = buildConfig({\<newline>  collections: [Users]\<newline>\<newline>  plugins: [pluginseo({})],});''"
    by code_simp
  have 10: "pluginName ?r = ''pluginseo''" "packageName ?r = ''@payloadcms/plugin-seo''"
    by code_simp+
  have "updatePayloadConfig ?r ?c =
           (''import { '' @ pluginName ?r @ '' } from '' @ [CHR 0x27] @ packageName ?r @ [CHR 0x27]
              @ '';\<newline>'')
           @ cleanUp (drop (length (importLine ?r)) (registerPlugin ?r (importLine ?r @ ?c)))"
    by (rule updatePayloadConfig_import_line[OF 1 2 3 4 8])
  then have "updatePayloadConfig ?r ?c =
      ''import { pluginseo } from '' @ [CHR 0x27] @ ''@payloadcms/plugin-seo'' @ [CHR 0x27] @ '';\<newline>module.exports = buildConfig({\<newline>  collections: [Users]\<newline>\<newline>  plugins: [pluginseo({})],});''"
    unfolding 9 10 by simp
  then show ?thesis using 1 3 4 5 6 unfolding Let_def by simp
qed

text \<open>
  The condition on the body of the call is needed: with an empty body, the new list is put at the
  beginning of the text, in front of the import line.
\<close>

lemma updatePayloadConfig_empty_body:
  \<open>updatePayloadConfig sampleInstaller ''export default buildConfig({})'' =
     ''\<newline>  plugins: [pluginseo({})],import { pluginseo } from '@payloadcms/plugin-seo';\<newline>export default buildConfig({})''\<close>
  by code_simp

text \<open>
  Claim C3 as stated fails: a content that the format detector classifies as CommonJS
  receives the ESM import line.
\<close>

theorem updatePayloadConfig_import_line_counterexample:
  \<open>format (validate postcss ''module.exports = { plugins: [] };'') = Some CommonJS \<and>
   \<not> rx_test (importRegex (pluginName sampleInstaller) (packageName sampleInstaller))
       ''module.exports = { plugins: [] };'' \<and>
   updatePayloadConfig sampleInstaller ''module.exports = { plugins: [] };'' =
     ''import { pluginseo } from '@payloadcms/plugin-seo';\<newline>module.exports = { plugins: [pluginseo({})] };''\<close>
  by code_simp


section \<open>The commas that the clean-up leaves\<close>

text \<open>The names of the installer of the repository are plain, whatever the style sheet is.\<close>

lemma shadcnInstaller_plain: "plainRegistration (shadcnInstaller cssPath)"
  unfolding plainRegistration_def shadcnInstaller_def by (simp, code_simp)


section \<open>Applying the patch twice\<close>

text \<open>
  Claim C1 fails in the code. On a formatted configuration with an empty plugins list, the
  first application adds the import line and the entry and removes the comma behind \<open>Media\<close>;
  the second application finds the import and the entry, and its clean-up removes the comma
  behind \<open>Nav\<close>. So the second result differs from the first.
\<close>

theorem updatePayloadConfig_twice:
  \<open>updatePayloadConfig (shadcnInstaller []) (formattedConfig []) =
     ''import { pluginshadcn } from '@payloadcms/plugin-shadcn';\<newline>'' @
     ''export default buildConfig({\<newline>'' @
     ''  collections: [\<newline>'' @
     ''    Users,\<newline>'' @
     ''    Media],\<newline>'' @
     ''  globals: [\<newline>'' @
     ''    Nav,\<newline>'' @
     ''  ],\<newline>'' @
     ''  plugins: ['' @ shadcnPluginConfig [] @ ''],\<newline>'' @
     ''});\<newline>'' \<and>
   updatePayloadConfig (shadcnInstaller [])
       (updatePayloadConfig (shadcnInstaller []) (formattedConfig [])) =
     ''import { pluginshadcn } from '@payloadcms/plugin-shadcn';\<newline>'' @
     ''export default buildConfig({\<newline>'' @
     ''  collections: [\<newline>'' @
     ''    Users,\<newline>'' @
     ''    Media],\<newline>'' @
     ''  globals: [\<newline>'' @
     ''    Nav],\<newline>'' @
     ''  plugins: ['' @ shadcnPluginConfig [] @ ''],\<newline>'' @
     ''});\<newline>'' \<and>
   updatePayloadConfig (shadcnInstaller [])
       (updatePayloadConfig (shadcnInstaller []) (formattedConfig [])) \<noteq>
     updatePayloadConfig (shadcnInstaller []) (formattedConfig [])\<close>
proof -
  let ?once = \<open>
     ''import { pluginshadcn } from '@payloadcms/plugin-shadcn';\<newline>'' @
     ''export default buildConfig({\<newline>'' @
     ''  collections: [\<newline>'' @
     ''    Users,\<newline>'' @
     ''    Media],\<newline>'' @
     ''  globals: [\<newline>'' @
     ''    Nav,\<newline>'' @
     ''  ],\<newline>'' @
     ''  plugins: ['' @ shadcnPluginConfig [] @ ''],\<newline>'' @
     ''});\<newline>''\<close>
  let ?twice = \<open>
     ''import { pluginshadcn } from '@payloadcms/plugin-shadcn';\<newline>'' @
     ''export default buildConfig({\<newline>'' @
     ''  collections: [\<newline>'' @
     ''    Users,\<newline>'' @
     ''    Media],\<newline>'' @
     ''  globals: [\<newline>'' @
     ''    Nav],\<newline>'' @
     ''  plugins: ['' @ shadcnPluginConfig [] @ ''],\<newline>'' @
     ''});\<newline>''\<close>
  have once: "updatePayloadConfig (shadcnInstaller []) (formattedConfig []) = ?once"
    by code_simp
  have twice: "updatePayloadConfig (shadcnInstaller []) ?once = ?twice"
    by code_simp
  have "?twice \<noteq> ?once" by simp
  then show ?thesis unfolding once twice by simp
qed


section \<open>Backup and restore around the patch\<close>

lemma findConfigFile_exists:
  "findConfigFile cwd ps fs = Some p \<Longrightarrow> \<exists>bytes. fs p = Some bytes"
  by (induction ps) (auto simp: Let_def pathExists_def split: if_splits)

lemma patchFile_backed:
  assumes "fs p = Some bytes" and "\<not> copyFails env p (p @ ''.bak'')"
  shows "patchFile r env p fs =
     (if readFails env p then (Inl (ReadFailed p), fs(p @ ''.bak'' \<mapsto> bytes))
      else writeFile env p (updatePayloadConfig r bytes) (fs(p @ ''.bak'' \<mapsto> bytes)))"
  using assms
  by (simp add: patchFile_def backupFile_def pathExists_def fsCopy_def readFile_def Let_def)

text \<open>
  Claim C4, as amended. \<open>backupFile\<close> swallows a failure of its copy and \<open>updatePayloadConfigFile\<close>
  goes on without a backup, so the claim holds when that copy succeeds: then the path with the
  suffix \<open>.bak\<close> holds the bytes that the file had before the run, whatever happens later (the
  operation never deletes it); after a success the file holds the patched text; after a failed
  read or write the backup is copied over the file and the same failure is thrown again,
  provided that this copy succeeds (otherwise the error of the copy is thrown).
\<close>

theorem updatePayloadConfigFile_backup:
  assumes found: "findConfigFile cwd payloadConfigPaths fs = Some p"
    and backed: "\<not> copyFails env p (p @ ''.bak'')"
    and run: "updatePayloadConfigFile r env cwd fs = (res, fs')"
  shows "\<exists>bytes. fs p = Some bytes \<and> fs' (p @ ''.bak'') = Some bytes \<and>
           (case res of
              Inr u \<Rightarrow> fs' p = Some (updatePayloadConfig r bytes)
            | Inl e \<Rightarrow>
                (if copyFails env (p @ ''.bak'') p then e = CopyFailed (p @ ''.bak'') p
                 else fs' p = Some bytes \<and> (e = ReadFailed p \<or> e = WriteFailed p)))"
proof -
  obtain bytes where b: "fs p = Some bytes" using findConfigFile_exists[OF found] by blast
  let ?fs1 = "fs(p @ ''.bak'' \<mapsto> bytes)"
  have pf: "patchFile r env p fs =
     (if readFails env p then (Inl (ReadFailed p), ?fs1)
      else writeFile env p (updatePayloadConfig r bytes) ?fs1)"
    using b backed by (rule patchFile_backed)
  have "fs' (p @ ''.bak'') = Some bytes \<and>
           (case res of
              Inr u \<Rightarrow> fs' p = Some (updatePayloadConfig r bytes)
            | Inl e \<Rightarrow>
                (if copyFails env (p @ ''.bak'') p then e = CopyFailed (p @ ''.bak'') p
                 else fs' p = Some bytes \<and> (e = ReadFailed p \<or> e = WriteFailed p)))"
  proof (cases "readFails env p")
    case True
    then show ?thesis using run found pf b
      by (auto simp: updatePayloadConfigFile_def pathExists_def fsCopy_def split: if_splits)
  next
    case False
    show ?thesis
    proof (cases "writeFault env p")
      case WriteOk
      then show ?thesis using run found pf b False
        by (auto simp: updatePayloadConfigFile_def writeFile_def)
    next
      case WriteRefused
      then show ?thesis using run found pf b False
        by (auto simp: updatePayloadConfigFile_def writeFile_def pathExists_def fsCopy_def split: if_splits)
    next
      case (WriteTorn n)
      then show ?thesis using run found pf b False
        by (auto simp: updatePayloadConfigFile_def writeFile_def pathExists_def fsCopy_def split: if_splits)
    qed
  qed
  then show ?thesis using b by blast
qed

text \<open>The theorem on a run whose write fails after three code units.\<close>

theorem updatePayloadConfigFile_backup_witness:
  "let p = ''/app/payload.config.ts'';
       fs = [p \<mapsto> ''export default buildConfig({ plugins: [] })''];
       env = noFaults \<lparr> writeFault := (\<lambda>q. WriteTorn 3) \<rparr>;
       run = updatePayloadConfigFile (shadcnInstaller []) env ''/app'' fs
   in findConfigFile ''/app'' payloadConfigPaths fs = Some p \<and>
      \<not> copyFails env p (p @ ''.bak'') \<and> \<not> copyFails env (p @ ''.bak'') p \<and>
      fst run = Inl (WriteFailed p) \<and>
      snd run p = Some ''export default buildConfig({ plugins: [] })'' \<and>
      snd run (p @ ''.bak'') = Some ''export default buildConfig({ plugins: [] })''"
proof -
  let ?p = "''/app/payload.config.ts''"
  let ?doc = "''export default buildConfig({ plugins: [] })''"
  let ?fs = "[?p \<mapsto> ?doc]"
  let ?env = "noFaults \<lparr> writeFault := (\<lambda>q. WriteTorn 3) \<rparr>"
  let ?run = "updatePayloadConfigFile (shadcnInstaller []) ?env ''/app'' ?fs"
  have found: "findConfigFile ''/app'' payloadConfigPaths ?fs = Some ?p" by code_simp
  have backed: "\<not> copyFails ?env ?p (?p @ ''.bak'')" by (simp add: noFaults_def)
  have restore: "\<not> copyFails ?env (?p @ ''.bak'') ?p" by (simp add: noFaults_def)
  have res: "fst ?run = Inl (WriteFailed ?p)" by code_simp
  have run: "?run = (fst ?run, snd ?run)" by simp
  obtain bytes where b: "?fs ?p = Some bytes" "snd ?run (?p @ ''.bak'') = Some bytes"
      "(case fst ?run of
              Inr u \<Rightarrow> snd ?run ?p = Some (updatePayloadConfig (shadcnInstaller []) bytes)
            | Inl e \<Rightarrow>
                (if copyFails ?env (?p @ ''.bak'') ?p then e = CopyFailed (?p @ ''.bak'') ?p
                 else snd ?run ?p = Some bytes \<and> (e = ReadFailed ?p \<or> e = WriteFailed ?p)))"
    using updatePayloadConfigFile_backup[OF found backed run] by blast
  have bytes: "bytes = ?doc" using b(1) by simp
  have "snd ?run ?p = Some ?doc" using b(3) res restore bytes by simp
  moreover have "snd ?run (?p @ ''.bak'') = Some ?doc" using b(2) bytes by simp
  ultimately show ?thesis using found backed restore res unfolding Let_def by blast
qed

text \<open>
  Claim C4 as stated fails when the copy to the backup path fails: the file is written all the
  same, and when that write fails too the file is left torn with no backup to restore.
\<close>

theorem updatePayloadConfigFile_backup_counterexample:
  "let p = ''/app/payload.config.ts'';
       fs = [p \<mapsto> ''export default buildConfig({ plugins: [] })''];
       env = noFaults \<lparr> copyFails := (\<lambda>src dst. dst = p @ ''.bak''),
                        writeFault := (\<lambda>q. WriteTorn 3) \<rparr>;
       run = updatePayloadConfigFile (shadcnInstaller []) env ''/app'' fs
   in fst run = Inl (WriteFailed p) \<and> snd run p = Some ''imp'' \<and> snd run (p @ ''.bak'') = None"
  by code_simp

section \<open>A content without anchor\<close>

lemma updatePayloadConfig_no_anchor:
  assumes "plainRegistration r"
    and "rx_search pluginsRegex c = None" and "rx_search buildConfigRegex c = None"
  shows "updatePayloadConfig r c = cleanUp (addImport r c)"
proof (cases "rx_test (importRegex (pluginName r) (packageName r)) c")
  case True
  then show ?thesis using assms(2,3)
    by (simp add: updatePayloadConfig_def addImport_def registerPlugin_def)
next
  case False
  then show ?thesis using assms
    by (simp add: updatePayloadConfig_def addImport_def registerPlugin_def
        rx_search_pluginsRegex_line rx_search_buildConfigRegex_line)
qed

text \<open>
  Claim C2, as amended. There is no \<open>PatchNotApplicableError\<close>: on a content in which neither a
  plugins list nor a \<open>buildConfig\<close> call is found, the patcher returns the content after the import
  step and the clean-up, and \<open>updatePayloadConfigFile\<close> writes that text over the file and
  succeeds. When the content had no import of the plugin, the text written begins with the
  import line and differs from the content.
\<close>

theorem updatePayloadConfigFile_no_anchor:
  assumes "plainRegistration r"
    and "rx_search pluginsRegex c = None" and "rx_search buildConfigRegex c = None"
    and "findConfigFile cwd payloadConfigPaths fs = Some p" and "fs p = Some c"
    and "\<not> copyFails env p (p @ ''.bak'')" and "\<not> readFails env p" and "writeFault env p = WriteOk"
  shows "updatePayloadConfig r c = cleanUp (addImport r c) \<and>
         updatePayloadConfigFile r env cwd fs =
           (Inr (), fs(p @ ''.bak'' \<mapsto> c, p \<mapsto> cleanUp (addImport r c))) \<and>
         (\<not> rx_test (importRegex (pluginName r) (packageName r)) c \<longrightarrow>
            cleanUp (addImport r c) = importLine r @ cleanUp c \<and> cleanUp (addImport r c) \<noteq> c)"
proof -
  have 1: "updatePayloadConfig r c = cleanUp (addImport r c)"
    by (rule updatePayloadConfig_no_anchor[OF assms(1-3)])
  have pf: "patchFile r env p fs = writeFile env p (updatePayloadConfig r c) (fs(p @ ''.bak'' \<mapsto> c))"
    using patchFile_backed[where fs = fs and p = p and bytes = c and env = env and r = r] assms(5,6,7)
    by simp
  have 2: "updatePayloadConfigFile r env cwd fs =
           (Inr (), fs(p @ ''.bak'' \<mapsto> c, p \<mapsto> cleanUp (addImport r c)))"
    using assms(4,8) pf 1 by (simp add: updatePayloadConfigFile_def writeFile_def)
  have 3: "cleanUp (addImport r c) = importLine r @ cleanUp c \<and> cleanUp (addImport r c) \<noteq> c"
    if n: "\<not> rx_test (importRegex (pluginName r) (packageName r)) c"
  proof -
    have e: "cleanUp (addImport r c) = importLine r @ cleanUp c"
      using n by (simp add: addImport_def cleanUp_importLine[OF assms(1)])
    have "importLine r @ cleanUp c \<noteq> c"
    proof
      assume "importLine r @ cleanUp c = c"
      then have "rx_test (importRegex (pluginName r) (packageName r)) c"
        using importRegex_importLine[of r "cleanUp c"] by simp
      then show False using n by simp
    qed
    then show ?thesis using e by simp
  qed
  show ?thesis using 1 2 3 by blast
qed

text \<open>
  The theorem at a configuration file with neither anchor.
\<close>

theorem updatePayloadConfigFile_no_anchor_witness:
  "let p = ''/app/payload.config.js''; c = ''module.exports = {};''; fs = [p \<mapsto> c]
   in plainRegistration sampleInstaller \<and>
      rx_search pluginsRegex c = None \<and> rx_search buildConfigRegex c = None \<and>
      findConfigFile ''/app'' payloadConfigPaths fs = Some p \<and>
      updatePayloadConfigFile sampleInstaller noFaults ''/app'' fs =
        (Inr (), fs(p @ ''.bak'' \<mapsto> c, p \<mapsto> cleanUp (addImport sampleInstaller c))) \<and>
      cleanUp (addImport sampleInstaller c) \<noteq> c"
proof -
  let ?p = "''/app/payload.config.js''"
  let ?c = "''module.exports = {};''"
  let ?fs = "[?p \<mapsto> ?c]"
  have 1: "plainRegistration sampleInstaller" by code_simp
  have 2: "rx_search pluginsRegex ?c = None" by code_simp
  have 3: "rx_search buildConfigRegex ?c = None" by code_simp
  have 4: "findConfigFile ''/app'' payloadConfigPaths ?fs = Some ?p" by code_simp
  have 5: "?fs ?p = Some ?c" by simp
  have 6: "\<not> copyFails noFaults ?p (?p @ ''.bak'')" by (simp add: noFaults_def)
  have 7: "\<not> readFails noFaults ?p" by (simp add: noFaults_def)
  have 8: "writeFault noFaults ?p = WriteOk" by (simp add: noFaults_def)
  have 9: "\<not> rx_test (importRegex (pluginName sampleInstaller) (packageName sampleInstaller)) ?c"
    by code_simp
  from updatePayloadConfigFile_no_anchor[OF 1 2 3 4 5 6 7 8] 9
  have "updatePayloadConfigFile sampleInstaller noFaults ''/app'' ?fs =
        (Inr (), ?fs(?p @ ''.bak'' \<mapsto> ?c, ?p \<mapsto> cleanUp (addImport sampleInstaller ?c))) \<and>
      cleanUp (addImport sampleInstaller ?c) \<noteq> ?c"
    by blast
  then show ?thesis using 1 2 3 4 unfolding Let_def by (intro conjI) blast+
qed

text \<open>
  Claim C2 as stated fails: with neither anchor in the content the operation succeeds and the
  file is written with the import line before its old content.
\<close>

theorem updatePayloadConfigFile_no_anchor_counterexample:
  \<open>let p = ''/app/payload.config.js'';
       run = updatePayloadConfigFile sampleInstaller noFaults ''/app'' [p \<mapsto> ''module.exports = {};'']
   in rx_search pluginsRegex ''module.exports = {};'' = None \<and>
      rx_search buildConfigRegex ''module.exports = {};'' = None \<and>
      fst run = Inr () \<and>
      snd run p = Some ''import { pluginseo } from '@payloadcms/plugin-seo';\<newline>module.exports = {};''\<close>
  by code_simp

section \<open>The fixpoint of the update\<close>

lemma templates_self_valid:
  "isValid (validate postcss (content postcss)) \<and>
   isValid (validate tailwind (content tailwind)) \<and>
   isValid (validate css (content css))"
  by code_simp

lemma builtin_self_valid: "t \<in> set CONFIG_TEMPLATES \<Longrightarrow> isValid (validate t (content t))"
  using templates_self_valid by (auto simp: CONFIG_TEMPLATES_def)

lemma updateConfigs_success:
  assumes "updateConfigs resolve env (c # cs) fs = (Inr updated, fs')"
  shows "(upToDate resolve fs c \<and> updateConfigs resolve env cs fs = (Inr updated, fs')) \<or>
         (\<not> upToDate resolve fs c \<and>
          (\<exists>u. updateConfigs resolve env cs (fs(resolve (path c) \<mapsto> content (template c))) = (Inr u, fs') \<and>
               updated = path c # u))"
  using assms
  by (auto simp: validateSingleConfig_def upToDate_def pathExists_def readFile_def writeFile_def
           split: option.splits if_splits sum.splits prod.splits write_fault.splits)

lemma updateConfigs_upToDate:
  assumes "upToDate resolve fs c"
  shows "updateConfigs resolve env (c # cs) fs =
     (if readFails env (resolve (path c)) then (Inl (ReadFailed (resolve (path c))), fs)
      else updateConfigs resolve env cs fs)"
  using assms
  by (auto simp: validateSingleConfig_def upToDate_def pathExists_def readFile_def
           split: option.splits)

lemma upToDate_write_same:
  "isValid (validate (template a) (content (template a))) \<Longrightarrow>
   resolve (path b) = resolve (path a) \<Longrightarrow> template b = template a \<Longrightarrow>
   upToDate resolve (fs(resolve (path a) \<mapsto> content (template a))) b"
  by (simp add: upToDate_def)

lemma upToDate_write_other:
  "resolve (path b) \<noteq> resolve (path a) \<Longrightarrow>
   upToDate resolve (fs(resolve (path a) \<mapsto> doc)) b = upToDate resolve fs b"
  by (simp add: upToDate_def)

lemma updateConfigs_establishes:
  assumes "\<forall>c\<in>set configs. template c \<in> set CONFIG_TEMPLATES"
    and "\<And>a b. a \<in> X \<Longrightarrow> b \<in> X \<Longrightarrow> resolve (path a) = resolve (path b) \<Longrightarrow>
           template a = template b \<or> (upToDate resolve fs a \<and> upToDate resolve fs b)"
    and "set configs \<subseteq> X" and "S \<subseteq> X"
    and "\<forall>c\<in>S. upToDate resolve fs c"
    and "updateConfigs resolve env configs fs = (Inr updated, fs')"
  shows "\<forall>c\<in>set configs \<union> S. upToDate resolve fs' c"
  using assms
proof (induction configs arbitrary: fs S updated)
  case Nil
  then show ?case by simp
next
  case (Cons c cs)
  let ?k = "resolve (path c)"
  let ?fs1 = "if upToDate resolve fs c then fs else fs(?k \<mapsto> content (template c))"
  have cX: "c \<in> X" using Cons.prems(3) by simp
  obtain u where run: "updateConfigs resolve env cs ?fs1 = (Inr u, fs')"
    using updateConfigs_success[OF Cons.prems(6)] by (cases "upToDate resolve fs c") auto
  have valid: "isValid (validate (template c) (content (template c)))"
    using Cons.prems(1) by (simp add: builtin_self_valid)
  have same: "template x = template c"
    if "x \<in> X" "resolve (path x) = ?k" "\<not> upToDate resolve fs c" for x
    using Cons.prems(2)[OF that(1) cX that(2)] that(3) by blast
  have inv: "\<forall>x\<in>insert c S. upToDate resolve ?fs1 x"
  proof
    fix x assume x: "x \<in> insert c S"
    then have xX: "x \<in> X" using cX Cons.prems(4) by blast
    show "upToDate resolve ?fs1 x"
    proof (cases "upToDate resolve fs c")
      case True
      have "upToDate resolve fs x" using x True Cons.prems(5) by blast
      then show ?thesis using True by simp
    next
      case False
      show ?thesis
      proof (cases "resolve (path x) = ?k")
        case True
        have "template x = template c" by (rule same[OF xX True False])
        then have "upToDate resolve (fs(?k \<mapsto> content (template c))) x"
          using True valid by (intro upToDate_write_same)
        then show ?thesis using False by simp
      next
        case neq: False
        then have "x \<in> S" using x by blast
        then have "upToDate resolve fs x" using Cons.prems(5) by blast
        then have "upToDate resolve (fs(?k \<mapsto> content (template c))) x"
          by (subst upToDate_write_other[OF neq])
        then show ?thesis using False by simp
      qed
    qed
  qed
  have compat: "template a = template b \<or> (upToDate resolve ?fs1 a \<and> upToDate resolve ?fs1 b)"
    if a: "a \<in> X" and b: "b \<in> X" and e: "resolve (path a) = resolve (path b)" for a b
  proof (cases "upToDate resolve fs c")
    case True
    then show ?thesis using Cons.prems(2)[OF a b e] by simp
  next
    case False
    show ?thesis
    proof (cases "resolve (path a) = ?k")
      case True
      have "template a = template c" by (rule same[OF a True False])
      moreover have "template b = template c" using same[OF b _ False] e True by simp
      ultimately show ?thesis by simp
    next
      case neq: False
      then have neqb: "resolve (path b) \<noteq> ?k" using e by simp
      show ?thesis
        using Cons.prems(2)[OF a b e] False
        by (simp add: upToDate_write_other[OF neq] upToDate_write_other[OF neqb])
    qed
  qed
  have "\<forall>x\<in>set cs \<union> insert c S. upToDate resolve fs' x"
  proof (rule Cons.IH[OF _ _ _ _ inv run])
    show "\<forall>c\<in>set cs. template c \<in> set CONFIG_TEMPLATES" using Cons.prems(1) by simp
    show "set cs \<subseteq> X" using Cons.prems(3) by simp
    show "insert c S \<subseteq> X" using cX Cons.prems(4) by simp
    show "\<And>a b. a \<in> X \<Longrightarrow> b \<in> X \<Longrightarrow> resolve (path a) = resolve (path b) \<Longrightarrow>
           template a = template b \<or> (upToDate resolve ?fs1 a \<and> upToDate resolve ?fs1 b)"
      by (rule compat)
  qed
  then show ?case by simp
qed

lemma updateConfigs_idle:
  assumes "\<forall>c\<in>set configs. upToDate resolve fs c"
  shows "snd (updateConfigs resolve env configs fs) = fs \<and>
         (fst (updateConfigs resolve env configs fs) = Inr [] \<or>
          (\<exists>c\<in>set configs. readFails env (resolve (path c)) \<and>
             fst (updateConfigs resolve env configs fs) = Inl (ReadFailed (resolve (path c)))))"
  using assms
proof (induction configs)
  case Nil
  show ?case by simp
next
  case (Cons c cs)
  then have c: "upToDate resolve fs c" and ih: "snd (updateConfigs resolve env cs fs) = fs \<and>
         (fst (updateConfigs resolve env cs fs) = Inr [] \<or>
          (\<exists>c\<in>set cs. readFails env (resolve (path c)) \<and>
             fst (updateConfigs resolve env cs fs) = Inl (ReadFailed (resolve (path c)))))"
    by auto
  show ?case
  proof (cases "readFails env (resolve (path c))")
    case True
    then show ?thesis unfolding updateConfigs_upToDate[OF c] by simp
  next
    case False
    then show ?thesis unfolding updateConfigs_upToDate[OF c] using ih by auto
  qed
qed

lemma updateConfigs_idle_reads:
  assumes "\<forall>c\<in>set configs. upToDate resolve fs c"
    and "\<forall>c\<in>set configs. \<not> readFails env (resolve (path c))"
  shows "updateConfigs resolve env configs fs = (Inr [], fs)"
proof -
  have "snd (updateConfigs resolve env configs fs) = fs"
    and "fst (updateConfigs resolve env configs fs) = Inr []"
    using updateConfigs_idle[OF assms(1), of env] assms(2) by auto
  then show ?thesis by (simp add: prod_eq_iff)
qed

lemma updateConfigs_all_upToDate:
  assumes h1: "\<forall>c\<in>set configs. template c \<in> set CONFIG_TEMPLATES"
    and h2: "compatible resolve fs configs"
    and h3: "updateConfigs resolve env configs fs = (Inr updated, fs')"
  shows "\<forall>c\<in>set configs. upToDate resolve fs' c"
proof -
  have cons: "template a = template b \<or> (upToDate resolve fs a \<and> upToDate resolve fs b)"
    if "a \<in> set configs" "b \<in> set configs" "resolve (path a) = resolve (path b)" for a b
    using h2 that unfolding compatible_def by blast
  have "\<forall>c\<in>set configs \<union> {}. upToDate resolve fs' c"
  proof (rule updateConfigs_establishes[where fs = fs and updated = updated and S = "{}"
        and X = "set configs" and env = env])
    show "\<forall>c\<in>set configs. template c \<in> set CONFIG_TEMPLATES" by (rule h1)
    show "\<And>a b. a \<in> set configs \<Longrightarrow> b \<in> set configs \<Longrightarrow> resolve (path a) = resolve (path b) \<Longrightarrow>
        template a = template b \<or> (upToDate resolve fs a \<and> upToDate resolve fs b)"
      by (rule cons)
    show "set configs \<subseteq> set configs" by simp
    show "{} \<subseteq> set configs" by simp
    show "\<forall>c\<in>{}. upToDate resolve fs c" by simp
    show "updateConfigs resolve env configs fs = (Inr updated, fs')" by (rule h3)
  qed
  then show ?thesis by simp
qed

lemma upToDate_iff:
  "upToDate resolve fs c =
     (\<exists>doc. fs (resolve (path c)) = Some doc \<and> isValid (validate (template c) doc))"
  by (simp add: upToDate_def split: option.splits)

text \<open>
  Claim C10, as amended. The canonical content of each built-in template is valid for its own
  validator. Let every registered file have a built-in template, and let any two registered
  paths that denote one file have the same template (or be valid for their templates already).
  When a run of \<open>updateConfigs\<close> returns, every registered file exists and is valid afterwards,
  and a second run writes nothing, whatever fails in it: it returns the empty list, or it throws
  the error of a read that failed; it returns the empty list when no read of a registered file
  fails.
\<close>

theorem updateConfigs_fixpoint:
  "(\<forall>t\<in>set CONFIG_TEMPLATES. isValid (validate t (content t))) \<and>
   ((\<forall>c\<in>set configs. template c \<in> set CONFIG_TEMPLATES) \<and> compatible resolve fs configs \<and>
    updateConfigs resolve env configs fs = (Inr updated, fs') \<longrightarrow>
      (\<forall>c\<in>set configs.
         \<exists>doc. fs' (resolve (path c)) = Some doc \<and> isValid (validate (template c) doc)) \<and>
      snd (updateConfigs resolve env' configs fs') = fs' \<and>
      (fst (updateConfigs resolve env' configs fs') = Inr [] \<or>
       (\<exists>c\<in>set configs. readFails env' (resolve (path c)) \<and>
          fst (updateConfigs resolve env' configs fs') = Inl (ReadFailed (resolve (path c))))) \<and>
      ((\<forall>c\<in>set configs. \<not> readFails env' (resolve (path c))) \<longrightarrow>
         updateConfigs resolve env' configs fs' = (Inr [], fs')))"
proof -
  have a: "\<forall>t\<in>set CONFIG_TEMPLATES. isValid (validate t (content t))"
    using builtin_self_valid by blast
  have b: "(\<forall>c\<in>set configs.
         \<exists>doc. fs' (resolve (path c)) = Some doc \<and> isValid (validate (template c) doc)) \<and>
      snd (updateConfigs resolve env' configs fs') = fs' \<and>
      (fst (updateConfigs resolve env' configs fs') = Inr [] \<or>
       (\<exists>c\<in>set configs. readFails env' (resolve (path c)) \<and>
          fst (updateConfigs resolve env' configs fs') = Inl (ReadFailed (resolve (path c))))) \<and>
      ((\<forall>c\<in>set configs. \<not> readFails env' (resolve (path c))) \<longrightarrow>
         updateConfigs resolve env' configs fs' = (Inr [], fs'))"
    if h: "(\<forall>c\<in>set configs. template c \<in> set CONFIG_TEMPLATES) \<and> compatible resolve fs configs \<and>
    updateConfigs resolve env configs fs = (Inr updated, fs')"
  proof -
    have all: "\<forall>c\<in>set configs. upToDate resolve fs' c"
      by (rule updateConfigs_all_upToDate[OF conjunct1[OF h] conjunct1[OF conjunct2[OF h]]
            conjunct2[OF conjunct2[OF h]]])
    have 1: "\<forall>c\<in>set configs.
         \<exists>doc. fs' (resolve (path c)) = Some doc \<and> isValid (validate (template c) doc)"
      using all unfolding upToDate_iff .
    have 2: "snd (updateConfigs resolve env' configs fs') = fs' \<and>
      (fst (updateConfigs resolve env' configs fs') = Inr [] \<or>
       (\<exists>c\<in>set configs. readFails env' (resolve (path c)) \<and>
          fst (updateConfigs resolve env' configs fs') = Inl (ReadFailed (resolve (path c)))))"
      by (rule updateConfigs_idle[OF all])
    have 3: "(\<forall>c\<in>set configs. \<not> readFails env' (resolve (path c))) \<longrightarrow>
         updateConfigs resolve env' configs fs' = (Inr [], fs')"
      by (rule impI) (rule updateConfigs_idle_reads[OF all])
    show ?thesis using 1 2 3 by (intro conjI) (rule 1, rule conjunct1[OF 2], rule conjunct2[OF 2], rule 3)
  qed
  show ?thesis
    by (rule conjI, rule a, rule impI, rule b)
qed

text \<open>
  The theorem at the standard handler with the style sheet registered a second time under
  another spelling, on a project that has only its style sheet.
\<close>

theorem updateConfigs_fixpoint_witness:
  "let resolve = pathResolve ''/app'';
       configs = addConfig ''./src/globals.css'' css
                   (createShadcnConfigHandler ''postcss.config.js'' ''tailwind.config.js''
                      ''src/globals.css'');
       fs = [''/app/src/globals.css'' \<mapsto> cssContent];
       fs' = snd (updateConfigs resolve noFaults configs fs)
   in (\<forall>c\<in>set configs. template c \<in> set CONFIG_TEMPLATES) \<and> compatible resolve fs configs \<and>
      fst (updateConfigs resolve noFaults configs fs) =
        Inr [''postcss.config.js'', ''tailwind.config.js''] \<and>
      (\<forall>c\<in>set configs.
         \<exists>doc. fs' (resolve (path c)) = Some doc \<and> isValid (validate (template c) doc)) \<and>
      updateConfigs resolve noFaults configs fs' = (Inr [], fs')"
proof -
  let ?resolve = "pathResolve ''/app''"
  let ?configs = "addConfig ''./src/globals.css'' css
                   (createShadcnConfigHandler ''postcss.config.js'' ''tailwind.config.js''
                      ''src/globals.css'')"
  let ?fs = "[''/app/src/globals.css'' \<mapsto> cssContent]"
  let ?up = "fst (updateConfigs ?resolve noFaults ?configs ?fs)"
  let ?fs' = "snd (updateConfigs ?resolve noFaults ?configs ?fs)"
  have cfg: "?configs = [\<lparr> path = ''postcss.config.js'', template = postcss \<rparr>,
                        \<lparr> path = ''tailwind.config.js'', template = tailwind \<rparr>,
                        \<lparr> path = ''src/globals.css'', template = css \<rparr>,
                        \<lparr> path = ''./src/globals.css'', template = css \<rparr>]"
    by (simp add: createShadcnConfigHandler_def addConfig_def)
  have r: "?resolve ''postcss.config.js'' = ''/app/postcss.config.js''"
    "?resolve ''tailwind.config.js'' = ''/app/tailwind.config.js''"
    "?resolve ''src/globals.css'' = ''/app/src/globals.css''"
    "?resolve ''./src/globals.css'' = ''/app/src/globals.css''"
    by code_simp+
  have 1: "\<forall>c\<in>set ?configs. template c \<in> set CONFIG_TEMPLATES"
    unfolding cfg by (simp add: CONFIG_TEMPLATES_def)
  have 2: "compatible ?resolve ?fs ?configs"
    unfolding cfg by (simp add: compatible_def r)
  have 3: "?up = Inr [''postcss.config.js'', ''tailwind.config.js'']"
    by code_simp
  have 4: "updateConfigs ?resolve noFaults ?configs ?fs = (Inr [''postcss.config.js'', ''tailwind.config.js''], ?fs')"
    using 3 by (simp add: prod_eq_iff)
  have 5: "\<forall>c\<in>set ?configs. \<not> readFails noFaults (?resolve (path c))"
    by (simp add: noFaults_def)
  have "(\<forall>c\<in>set ?configs.
         \<exists>doc. ?fs' (?resolve (path c)) = Some doc \<and> isValid (validate (template c) doc)) \<and>
      updateConfigs ?resolve noFaults ?configs ?fs' = (Inr [], ?fs')"
    using updateConfigs_fixpoint[of ?configs ?resolve ?fs noFaults
        "[''postcss.config.js'', ''tailwind.config.js'']" ?fs' noFaults] 1 2 4 5
    by blast
  then show ?thesis using 1 2 3 unfolding Let_def by blast
qed

text \<open>
  Claim C10 as stated fails when two registered paths denote one file and have different
  templates: each run writes the file twice, the file is never valid for the first template, and
  the second run returns both paths again.
\<close>

theorem updateConfigs_fixpoint_counterexample:
  "let resolve = pathResolve ''/app'';
       configs = addConfig ''styles.css'' css (addConfig ''./styles.css'' postcss []);
       fs' = snd (updateConfigs resolve noFaults configs Map.empty)
   in fst (updateConfigs resolve noFaults configs Map.empty) = Inr [''./styles.css'', ''styles.css''] \<and>
      \<not> isValid (validate postcss (the (fs' ''/app/styles.css''))) \<and>
      fst (updateConfigs resolve noFaults configs fs') = Inr [''./styles.css'', ''styles.css'']"
  by code_simp


section \<open>A name that is no identifier\<close>

lemma promptName_valid: "promptName inputs = Some n \<Longrightarrow> validateName n = Valid"
  by (induction inputs) (auto split: verdict.splits)

lemma prompted_name_identifier:
  "promptName inputs = Some n \<Longrightarrow> isPascalIdentifier (pascalCaseName (trim n))"
  using promptName_valid[of inputs n] by (auto simp: validateName_def split: if_splits)

text \<open>
  Claim C8 fails in the code. The Pascal-case form of the name \<open>123abc\<close> is \<open>123abc\<close>, which is no
  identifier: the \<open>validate\<close> function of the name prompt answers with its message, and the
  prompt does not return that name. But when the same name is the argument of the command, no
  check is made: with the template \<open>posts\<close> chosen, the command creates the directory
  \<open>src/collections/123abc\<close> and generates the collection in it.
\<close>

theorem generateCollectionCommand_argument_unchecked:
  "\<not> isPascalIdentifier (pascalCaseName ''123abc'') \<and>
   validateName ''123abc'' = Invalid ''Collection name must be a valid PascalCase identifier'' \<and>
   promptName [''123abc''] = None \<and>
   generateCollectionCommand defaultConfig [] (\<lambda>call. False) (Some ''123abc'')
     \<lparr> nameInputs = [], generationType = Template, templateKey = ''posts'',
       templateLocal = False, sourceCollection = [] \<rparr> =
     Some ([EnsureDir ''src/collections'', EnsureDir ''src/collections/123abc'',
            GenerateCollectionFiles ''123abc'' ''posts'' ''src/collections/123abc'',
            UpdatePayloadConfig ''123abc'' ''src/collections''], Returned)"
  by code_simp


section \<open>What a clone rewrites\<close>












end
